theory Spec2Isabelle
  imports Complex_Main "HOL-Library.Sublist"
begin

chapter \<open>ComputeHorde validator: chain oracle, prefetch cache, job driver,
  receipt transfer and output upload\<close>

text \<open>
  A shallow embedding of the Python sources

  \<^item> \<^verbatim>\<open>validator/allowance/utils/supertensor.py\<close> (chain oracle and prefetch cache),
  \<^item> \<^verbatim>\<open>validator/organic_jobs/miner_driver.py\<close> (organic job driver),
  \<^item> \<^verbatim>\<open>validator/management/commands/transfer_receipts.py\<close> (receipt transfer),
  \<^item> \<^verbatim>\<open>compute_horde_core/output_upload/_uploader.py\<close> (zip and upload).

  Exceptions are values of a sum type (\<open>Inl\<close> is the raised exception), mutable object
  state is passed explicitly, and everything the code reads from outside the process
  (chain RPC answers, dynamic configuration, the clock) is an oracle the definitions
  take as an argument. All definitions come first, the theorems follow.
\<close>

section \<open>Chain oracle (\<^verbatim>\<open>supertensor.py\<close>): data\<close>

text \<open>
  \<^verbatim>\<open>turbobt.Neuron\<close> restricted to the attributes the module reads. The uid is a
  \<open>u16\<close> on chain, hence a natural number; the stake is a float that the module only
  compares and copies, modelled by a rational.
\<close>

record neuron =
  uid :: nat
  hotkey :: string
  stake :: rat
  axon_ip :: "string option"

text \<open>\<^verbatim>\<open>ValidatorModel(uid, hotkey, effective_stake)\<close>.\<close>

record validator_model =
  vm_uid :: nat
  vm_hotkey :: string
  effective_stake :: rat

text \<open>
  \<^verbatim>\<open>turbobt.subnet.SubnetState\<close> is a dictionary; the module reads its key
  \<^verbatim>\<open>"total_stake"\<close> only. \<open>None\<close> stands for an absent key, and an entry of the
  list may itself be Python's \<^verbatim>\<open>None\<close>.
\<close>

record subnet_state =
  total_stake :: "rat option list option"

record metagraph_data =
  md_block :: int
  md_block_hash :: string
  md_total_stake :: "rat option list"
  md_uids :: "nat list"
  md_hotkeys :: "string list"
  md_serving_hotkeys :: "string list"

text \<open>
  The exceptions of the module, the two exceptions of its collaborators that it
  catches (\<^verbatim>\<open>UnknownBlock\<close>, \<^verbatim>\<open>ConcurrencyError\<close>), the builtin \<^verbatim>\<open>TimeoutError\<close>
  and \<^verbatim>\<open>IndexError\<close>, and any other exception of the chain client.
\<close>

datatype st_error =
    SuperTensorTimeout
  | ArchiveSubtensorNotConfigured
  | CannotGetCurrentBlock
  | PrecachingSuperTensorCacheMiss
  | UnknownBlock
  | TimeoutError
  | ConcurrencyError
  | IndexError
  | ChainFailure string

text \<open>The value of \<^verbatim>\<open>bittensor_context\<close>: the lite node or the archive node.\<close>

datatype source = Lite | Archive

datatype rpc = RpcListNeurons | RpcGetTimestamp | RpcGetState | RpcBlockHash

datatype task_type =
  NEURONS | BLOCK_TIMESTAMP | BLOCK_HASH | SUBNET_STATE | VALIDATORS | THE_END

text \<open>
  What the process does to the outside world, in order: a chain coroutine run under
  \<^verbatim>\<open>asyncio.wait_for\<close> (with the seconds it occupied the caller), a read through the
  shielded connection, and a sleep (seconds).
\<close>

datatype st_event =
    ChainRead rpc source int rat
  | ShieldedRead rat
  | Sleep rat

text \<open>
  The chain. A coroutine of the chain client answers after some seconds with a value
  or an exception; the answer may differ from one call to the next, so each oracle
  takes the number of outside reads the process has made so far. \<open>chain_head\<close> is
  \<^verbatim>\<open>compute_horde.blockchain.block_cache.get_current_block\<close>.
\<close>

record chain =
  chain_list_neurons :: "source \<Rightarrow> int \<Rightarrow> nat \<Rightarrow> rat \<times> (st_error + neuron list)"
  chain_get_timestamp :: "source \<Rightarrow> int \<Rightarrow> nat \<Rightarrow> rat \<times> (st_error + int)"
  chain_get_state :: "source \<Rightarrow> int \<Rightarrow> nat \<Rightarrow> rat \<times> (st_error + subnet_state)"
  chain_block_hash :: "source \<Rightarrow> int \<Rightarrow> nat \<Rightarrow> rat \<times> (st_error + string)"
  chain_shielded_neurons :: "nat \<Rightarrow> rat \<times> (st_error + neuron list)"
  chain_head :: "nat \<Rightarrow> st_error + int"

text \<open>
  The attributes of a \<^verbatim>\<open>SuperTensor\<close> (first group) and of a
  \<^verbatim>\<open>PrecachingSuperTensor\<close> with its \<^verbatim>\<open>InMemoryCache\<close> (second group), together with
  the count of outside reads and the log of events.
\<close>

record supertensor =
  calls :: nat
  events :: "st_event list"
  archive_configured :: bool
  neuron_list_cache :: "(int \<times> neuron list) list"
  neuron_cache :: "int \<rightharpoonup> neuron list"
  block_timestamp_cache :: "int \<rightharpoonup> int"
  block_hash_cache :: "int \<rightharpoonup> string"
  subnet_state_cache :: "int \<rightharpoonup> subnet_state"
  validators_cache :: "int \<rightharpoonup> validator_model list"
  throw_on_cache_miss :: bool
  highest_block_requested :: "int option"
  highest_block_submitted :: "int option"
  task_queue :: "(task_type \<times> int) list"
  closing :: bool

type_synonym 'a st_m = "supertensor \<Rightarrow> (st_error + 'a) \<times> supertensor"

section \<open>Chain oracle: decorators\<close>

definition DEFAULT_TIMEOUT :: rat where
  "DEFAULT_TIMEOUT = 30"

definition LITE_BLOCK_LOOKBACK :: int where
  "LITE_BLOCK_LOOKBACK = 200"

definition sleep :: "rat \<Rightarrow> supertensor \<Rightarrow> supertensor" where
  "sleep seconds s = s\<lparr>events := events s @ [Sleep seconds]\<rparr>"

text \<open>
  \<^verbatim>\<open>make_sync\<close>: the coroutine runs under \<^verbatim>\<open>asyncio.wait_for(..., timeout=30.0)\<close>. A
  coroutine that needs 30 seconds or more is cancelled at 30 seconds; the resulting
  \<^verbatim>\<open>TimeoutError\<close>, like a \<^verbatim>\<open>TimeoutError\<close> raised by the coroutine itself (of which
  \<^verbatim>\<open>SuperTensorTimeout\<close> is a subclass), is re-raised as \<^verbatim>\<open>SuperTensorTimeout\<close>.
\<close>

definition make_sync :: "(rat \<Rightarrow> st_event) \<Rightarrow> (nat \<Rightarrow> rat \<times> (st_error + 'a)) \<Rightarrow> 'a st_m" where
  "make_sync ev coro s =
     (let (duration, outcome) = coro (calls s);
          s' = s\<lparr>calls := calls s + 1,
                 events := events s @ [ev (min duration DEFAULT_TIMEOUT)]\<rparr>
      in if DEFAULT_TIMEOUT \<le> duration then (Inl SuperTensorTimeout, s')
         else (case outcome of
                 Inl TimeoutError \<Rightarrow> (Inl SuperTensorTimeout, s')
               | Inl e \<Rightarrow> (Inl e, s')
               | Inr v \<Rightarrow> (Inr v, s')))"

text \<open>
  \<^verbatim>\<open>archive_fallback\<close>: call with the lite node in the context variables; on
  \<^verbatim>\<open>UnknownBlock\<close> raise \<^verbatim>\<open>ArchiveSubtensorNotConfigured\<close> when there is no archive
  node, else call again with the archive node.
\<close>

definition archive_fallback :: "(source \<Rightarrow> 'a st_m) \<Rightarrow> 'a st_m" where
  "archive_fallback func s =
     (case func Lite s of
        (Inl UnknownBlock, s1) \<Rightarrow>
          if \<not> archive_configured s1 then (Inl ArchiveSubtensorNotConfigured, s1)
          else func Archive s1
      | r \<Rightarrow> r)"

text \<open>
  The tenacity policy \<^verbatim>\<open>RETRY_ON_TIMEOUT\<close>:
  \<^verbatim>\<open>retry(reraise=True, retry=retry_if_exception_type(SuperTensorTimeout),
  stop=stop_after_attempt(3), wait=wait_exponential(multiplier=0.1, min=0.1, max=0.8))\<close>.
  Attempts are numbered from 1. \<^verbatim>\<open>wait_exponential\<close> waits
  \<open>multiplier * 2 ^ (attempt_number - 1)\<close> seconds, clamped to \<open>[min, max]\<close>.
\<close>

definition wait_exponential :: "rat \<Rightarrow> rat \<Rightarrow> rat \<Rightarrow> nat \<Rightarrow> rat" where
  "wait_exponential multiplier mn mx attempt_number =
     max (max 0 mn) (min (multiplier * 2 ^ (attempt_number - 1)) mx)"

definition stop_after_attempt :: "nat \<Rightarrow> nat \<Rightarrow> bool" where
  "stop_after_attempt max_attempt_number attempt_number = (max_attempt_number \<le> attempt_number)"

definition retry_if_exception_type :: "st_error \<Rightarrow> st_error \<Rightarrow> bool" where
  "retry_if_exception_type exception_type e = (e = exception_type)"

function retrying :: "nat \<Rightarrow> 'a st_m \<Rightarrow> 'a st_m" where
  "retrying attempt_number f s =
     (case f s of
        (Inr v, s1) \<Rightarrow> (Inr v, s1)
      | (Inl e, s1) \<Rightarrow>
          if \<not> retry_if_exception_type SuperTensorTimeout e then (Inl e, s1)
          else if stop_after_attempt 3 attempt_number then (Inl e, s1)
          else retrying (Suc attempt_number) f
                 (sleep (wait_exponential (1 / 10) (1 / 10) (8 / 10) attempt_number) s1))"
  by pat_completeness auto
termination
  by (relation "measure (\<lambda>(attempt_number, f, s). 3 - attempt_number)")
     (auto simp: stop_after_attempt_def)

definition RETRY_ON_TIMEOUT :: "'a st_m \<Rightarrow> 'a st_m" where
  "RETRY_ON_TIMEOUT f = retrying 1 f"

section \<open>Chain oracle: class \<^verbatim>\<open>SuperTensor\<close>\<close>

text \<open>
  A method that the class calls through \<^verbatim>\<open>self\<close> and that a subclass overrides is an
  argument (\<open>self_...\<close>) of the method that calls it; the methods of \<^verbatim>\<open>SuperTensor\<close>
  proper pass their own, \<^verbatim>\<open>PrecachingSuperTensor\<close> passes its overrides. A leading
  underscore of a Python name is written as a doubled underscore after the class name.
\<close>

definition SuperTensor__real_list_neurons :: "chain \<Rightarrow> int \<Rightarrow> neuron list st_m" where
  "SuperTensor__real_list_neurons ch block_number =
     archive_fallback (\<lambda>src. make_sync (ChainRead RpcListNeurons src block_number)
                                (chain_list_neurons ch src block_number))"

text \<open>
  \<^verbatim>\<open>deque(maxlen=15).append\<close> drops the oldest entry of a full deque;
  \<^verbatim>\<open>dict(deque)\<close> keeps the last pair of each key; \<^verbatim>\<open>if hit := cache.get(b)\<close> takes
  an empty list for a miss.
\<close>

definition deque_append :: "'a \<Rightarrow> 'a list \<Rightarrow> 'a list" where
  "deque_append x xs = (let ys = xs @ [x] in drop (length ys - 15) ys)"

definition SuperTensor__list_neurons :: "chain \<Rightarrow> int \<Rightarrow> neuron list st_m" where
  "SuperTensor__list_neurons ch block_number s =
     (case map_of (rev (neuron_list_cache s)) block_number of
        Some (n # ns) \<Rightarrow> (Inr (n # ns), s)
      | _ \<Rightarrow>
          (case SuperTensor__real_list_neurons ch block_number s of
             (Inl e, s1) \<Rightarrow> (Inl e, s1)
           | (Inr result, s1) \<Rightarrow>
               (Inr result,
                s1\<lparr>neuron_list_cache :=
                      deque_append (block_number, result) (neuron_list_cache s1)\<rparr>)))"

definition list_neurons :: "(int \<Rightarrow> neuron list st_m) \<Rightarrow> int \<Rightarrow> neuron list st_m" where
  "list_neurons self__list_neurons block_number = RETRY_ON_TIMEOUT (self__list_neurons block_number)"

definition SuperTensor_list_neurons :: "chain \<Rightarrow> int \<Rightarrow> neuron list st_m" where
  "SuperTensor_list_neurons ch = list_neurons (SuperTensor__list_neurons ch)"

definition SuperTensor__get_block_timestamp :: "chain \<Rightarrow> int \<Rightarrow> int st_m" where
  "SuperTensor__get_block_timestamp ch block_num =
     archive_fallback (\<lambda>src. make_sync (ChainRead RpcGetTimestamp src block_num)
                                (chain_get_timestamp ch src block_num))"

definition SuperTensor_get_block_timestamp :: "chain \<Rightarrow> int \<Rightarrow> int st_m" where
  "SuperTensor_get_block_timestamp ch block_number =
     RETRY_ON_TIMEOUT (SuperTensor__get_block_timestamp ch block_number)"

definition SuperTensor__get_subnet_state :: "chain \<Rightarrow> int \<Rightarrow> subnet_state st_m" where
  "SuperTensor__get_subnet_state ch block_number =
     archive_fallback (\<lambda>src. make_sync (ChainRead RpcGetState src block_number)
                                (chain_get_state ch src block_number))"

definition SuperTensor_get_subnet_state :: "chain \<Rightarrow> int \<Rightarrow> subnet_state st_m" where
  "SuperTensor_get_subnet_state ch block_number =
     RETRY_ON_TIMEOUT (SuperTensor__get_subnet_state ch block_number)"

definition SuperTensor__get_block_hash :: "chain \<Rightarrow> int \<Rightarrow> string st_m" where
  "SuperTensor__get_block_hash ch block_number =
     archive_fallback (\<lambda>src. make_sync (ChainRead RpcBlockHash src block_number)
                                (chain_block_hash ch src block_number))"

definition SuperTensor_get_block_hash :: "chain \<Rightarrow> int \<Rightarrow> string st_m" where
  "SuperTensor_get_block_hash ch block_number =
     RETRY_ON_TIMEOUT (SuperTensor__get_block_hash ch block_number)"

definition get_shielded_neurons :: "chain \<Rightarrow> neuron list st_m" where
  "get_shielded_neurons ch =
     RETRY_ON_TIMEOUT (make_sync ShieldedRead (chain_shielded_neurons ch))"

text \<open>
  \<^verbatim>\<open>get_current_block\<close>: the block cache's head minus 5; a \<^verbatim>\<open>ConcurrencyError\<close> of
  the websocket becomes \<^verbatim>\<open>CannotGetCurrentBlock\<close>, any other exception passes.
\<close>

definition get_current_block :: "chain \<Rightarrow> int st_m" where
  "get_current_block ch s =
     (let s' = s\<lparr>calls := calls s + 1\<rparr>
      in case chain_head ch (calls s) of
           Inl ConcurrencyError \<Rightarrow> (Inl CannotGetCurrentBlock, s')
         | Inl e \<Rightarrow> (Inl e, s')
         | Inr current_block \<Rightarrow> (Inr (current_block - 5), s'))"

text \<open>
  Python's \<^verbatim>\<open>xs[i]\<close> for an index \<open>i \<ge> 0\<close>: \<^verbatim>\<open>IndexError\<close> out of range.
\<close>

definition py_getitem :: "'a list \<Rightarrow> nat \<Rightarrow> st_error + 'a" where
  "py_getitem xs i = (if i < length xs then Inr (xs ! i) else Inl IndexError)"

text \<open>
  The conditional expression of \<^verbatim>\<open>list_validators\<close>:
  \<^verbatim>\<open>total_stake[n.uid] if n.uid < len(total_stake) and total_stake[n.uid] is not None else 0.0\<close>.
  The subscript is evaluated only after the bound check succeeded.
\<close>

definition effective_stake_of :: "rat option list \<Rightarrow> nat \<Rightarrow> st_error + rat" where
  "effective_stake_of ts u =
     (if u < length ts then
        (case py_getitem ts u of
           Inl e \<Rightarrow> Inl e
         | Inr None \<Rightarrow> Inr 0
         | Inr (Some v) \<Rightarrow> Inr v)
      else Inr 0)"

fun build_validators :: "rat option list \<Rightarrow> neuron list \<Rightarrow> st_error + validator_model list" where
  "build_validators ts [] = Inr []"
| "build_validators ts (n # ns) =
     (case effective_stake_of ts (uid n) of
        Inl e \<Rightarrow> Inl e
      | Inr es \<Rightarrow>
          (case build_validators ts ns of
             Inl e \<Rightarrow> Inl e
           | Inr vs \<Rightarrow> Inr (\<lparr>vm_uid = uid n, vm_hotkey = hotkey n, effective_stake = es\<rparr> # vs)))"

definition list_validators ::
  "(int \<Rightarrow> neuron list st_m) \<Rightarrow> (int \<Rightarrow> subnet_state st_m) \<Rightarrow> int \<Rightarrow> validator_model list st_m" where
  "list_validators self_list_neurons self_get_subnet_state block_number s =
     (case self_list_neurons block_number s of
        (Inl e, s1) \<Rightarrow> (Inl e, s1)
      | (Inr neurons, s1) \<Rightarrow>
          (case self_get_subnet_state block_number s1 of
             (Inl e, s2) \<Rightarrow> (Inl e, s2)
           | (Inr state, s2) \<Rightarrow>
               (let validators = filter (\<lambda>n. 1000 \<le> stake n) neurons;
                    ts = (case total_stake state of None \<Rightarrow> [] | Some l \<Rightarrow> l)
                in (build_validators ts validators, s2))))"

definition SuperTensor_list_validators :: "chain \<Rightarrow> int \<Rightarrow> validator_model list st_m" where
  "SuperTensor_list_validators ch =
     list_validators (SuperTensor_list_neurons ch) (SuperTensor_get_subnet_state ch)"

text \<open>
  \<^verbatim>\<open>_build_metagraph_data\<close> and \<^verbatim>\<open>get_metagraph\<close>. The three reads go through
  \<^verbatim>\<open>self\<close>, so each of them carries its own retry policy inside the retry policy of
  \<^verbatim>\<open>get_metagraph\<close>.
\<close>

definition build_metagraph_data ::
  "(int \<Rightarrow> string st_m) \<Rightarrow> (int \<Rightarrow> neuron list st_m) \<Rightarrow> (int \<Rightarrow> subnet_state st_m) \<Rightarrow>
   int \<Rightarrow> metagraph_data st_m" where
  "build_metagraph_data self_get_block_hash self_list_neurons self_get_subnet_state block_number s =
     (case self_get_block_hash block_number s of
        (Inl e, s1) \<Rightarrow> (Inl e, s1)
      | (Inr block_hash, s1) \<Rightarrow>
          (case self_list_neurons block_number s1 of
             (Inl e, s2) \<Rightarrow> (Inl e, s2)
           | (Inr turbobt_neurons, s2) \<Rightarrow>
               (case self_get_subnet_state block_number s2 of
                  (Inl e, s3) \<Rightarrow> (Inl e, s3)
                | (Inr state, s3) \<Rightarrow>
                    (Inr \<lparr>md_block = block_number,
                          md_block_hash = block_hash,
                          md_total_stake = (case total_stake state of None \<Rightarrow> [] | Some l \<Rightarrow> l),
                          md_uids = map uid turbobt_neurons,
                          md_hotkeys = map hotkey turbobt_neurons,
                          md_serving_hotkeys =
                            map hotkey
                              (filter (\<lambda>n. case axon_ip n of None \<Rightarrow> False
                                             | Some ip \<Rightarrow> ip \<noteq> ''0.0.0.0'')
                                 turbobt_neurons)\<rparr>,
                     s3))))"

definition get_metagraph ::
  "chain \<Rightarrow> (int \<Rightarrow> string st_m) \<Rightarrow> (int \<Rightarrow> neuron list st_m) \<Rightarrow> (int \<Rightarrow> subnet_state st_m) \<Rightarrow>
   int option \<Rightarrow> metagraph_data st_m" where
  "get_metagraph ch self_get_block_hash self_list_neurons self_get_subnet_state block_number =
     RETRY_ON_TIMEOUT
       (\<lambda>s. case block_number of
               Some b \<Rightarrow>
                 build_metagraph_data self_get_block_hash self_list_neurons
                   self_get_subnet_state b s
             | None \<Rightarrow>
                 (case get_current_block ch s of
                    (Inl e, s1) \<Rightarrow> (Inl e, s1)
                  | (Inr b, s1) \<Rightarrow>
                      build_metagraph_data self_get_block_hash self_list_neurons
                        self_get_subnet_state b s1))"

definition SuperTensor_get_metagraph :: "chain \<Rightarrow> int option \<Rightarrow> metagraph_data st_m" where
  "SuperTensor_get_metagraph ch =
     get_metagraph ch (SuperTensor_get_block_hash ch) (SuperTensor_list_neurons ch)
       (SuperTensor_get_subnet_state ch)"

section \<open>Prefetch cache: class \<^verbatim>\<open>PrecachingSuperTensor\<close>\<close>

definition N_THREADS :: nat where
  "N_THREADS = 10"

definition CACHE_AHEAD :: int where
  "CACHE_AHEAD = 10"

text \<open>
  \<^verbatim>\<open>set_starting_block\<close>:
  \<^verbatim>\<open>highest_block_requested = max(highest_block_requested or 0, block_number)\<close>, and
  \<^verbatim>\<open>highest_block_submitted = block_number - 1\<close> only while it is still \<^verbatim>\<open>None\<close>.
\<close>

definition set_starting_block :: "int \<Rightarrow> supertensor \<Rightarrow> supertensor" where
  "set_starting_block block_number s =
     (let s1 = s\<lparr>highest_block_requested :=
                   Some (max (case highest_block_requested s of None \<Rightarrow> 0 | Some r \<Rightarrow> r)
                             block_number)\<rparr>
      in if highest_block_submitted s1 = None
         then s1\<lparr>highest_block_submitted := Some (block_number - 1)\<rparr>
         else s1)"

definition Precaching__list_neurons :: "chain \<Rightarrow> int \<Rightarrow> neuron list st_m" where
  "Precaching__list_neurons ch block_number s =
     (let s1 = set_starting_block block_number s
      in case neuron_cache s1 block_number of
           Some neurons \<Rightarrow> (Inr neurons, s1)
         | None \<Rightarrow>
             if throw_on_cache_miss s1 then (Inl PrecachingSuperTensorCacheMiss, s1)
             else (case SuperTensor__list_neurons ch block_number s1 of
                     (Inl e, s2) \<Rightarrow> (Inl e, s2)
                   | (Inr neurons, s2) \<Rightarrow>
                       (Inr neurons,
                        s2\<lparr>neuron_cache := (neuron_cache s2)(block_number \<mapsto> neurons)\<rparr>)))"

definition Precaching_list_neurons :: "chain \<Rightarrow> int \<Rightarrow> neuron list st_m" where
  "Precaching_list_neurons ch = list_neurons (Precaching__list_neurons ch)"

text \<open>
  \<^verbatim>\<open>get_block_timestamp\<close>: on a miss the value of \<^verbatim>\<open>super()._get_block_timestamp\<close>
  is returned as it is; the method has no \<^verbatim>\<open>put_block_timestamp\<close>.
\<close>

definition Precaching_get_block_timestamp :: "chain \<Rightarrow> int \<Rightarrow> int st_m" where
  "Precaching_get_block_timestamp ch block_number =
     RETRY_ON_TIMEOUT
       (\<lambda>s. let s1 = set_starting_block block_number s
            in case block_timestamp_cache s1 block_number of
                 Some timestamp \<Rightarrow> (Inr timestamp, s1)
               | None \<Rightarrow>
                   if throw_on_cache_miss s1 then (Inl PrecachingSuperTensorCacheMiss, s1)
                   else SuperTensor__get_block_timestamp ch block_number s1)"

text \<open>
  \<^verbatim>\<open>get_block_hash\<close>: on a miss it calls \<^verbatim>\<open>super().get_block_hash\<close>, the decorated
  method of \<^verbatim>\<open>SuperTensor\<close>.
\<close>

definition Precaching_get_block_hash :: "chain \<Rightarrow> int \<Rightarrow> string st_m" where
  "Precaching_get_block_hash ch block_number =
     RETRY_ON_TIMEOUT
       (\<lambda>s. let s1 = set_starting_block block_number s
            in case block_hash_cache s1 block_number of
                 Some block_hash \<Rightarrow> (Inr block_hash, s1)
               | None \<Rightarrow>
                   if throw_on_cache_miss s1 then (Inl PrecachingSuperTensorCacheMiss, s1)
                   else (case SuperTensor_get_block_hash ch block_number s1 of
                           (Inl e, s2) \<Rightarrow> (Inl e, s2)
                         | (Inr block_hash, s2) \<Rightarrow>
                             (Inr block_hash,
                              s2\<lparr>block_hash_cache :=
                                    (block_hash_cache s2)(block_number \<mapsto> block_hash)\<rparr>)))"

definition Precaching_get_subnet_state :: "chain \<Rightarrow> int \<Rightarrow> subnet_state st_m" where
  "Precaching_get_subnet_state ch block_number =
     RETRY_ON_TIMEOUT
       (\<lambda>s. let s1 = set_starting_block block_number s
            in case subnet_state_cache s1 block_number of
                 Some state \<Rightarrow> (Inr state, s1)
               | None \<Rightarrow>
                   if throw_on_cache_miss s1 then (Inl PrecachingSuperTensorCacheMiss, s1)
                   else (case SuperTensor__get_subnet_state ch block_number s1 of
                           (Inl e, s2) \<Rightarrow> (Inl e, s2)
                         | (Inr state, s2) \<Rightarrow>
                             (Inr state,
                              s2\<lparr>subnet_state_cache :=
                                    (subnet_state_cache s2)(block_number \<mapsto> state)\<rparr>)))"

text \<open>
  \<^verbatim>\<open>list_validators\<close>: on a miss \<^verbatim>\<open>super().list_validators\<close> runs with this object as
  \<^verbatim>\<open>self\<close>, so its two reads are the precaching ones.
\<close>

definition Precaching_list_validators :: "chain \<Rightarrow> int \<Rightarrow> validator_model list st_m" where
  "Precaching_list_validators ch block_number s =
     (let s1 = set_starting_block block_number s
      in case validators_cache s1 block_number of
           Some validators \<Rightarrow> (Inr validators, s1)
         | None \<Rightarrow>
             if throw_on_cache_miss s1 then (Inl PrecachingSuperTensorCacheMiss, s1)
             else (case list_validators (Precaching_list_neurons ch)
                          (Precaching_get_subnet_state ch) block_number s1 of
                     (Inl e, s2) \<Rightarrow> (Inl e, s2)
                   | (Inr validators, s2) \<Rightarrow>
                       (Inr validators,
                        s2\<lparr>validators_cache :=
                              (validators_cache s2)(block_number \<mapsto> validators)\<rparr>)))"

definition Precaching_get_metagraph :: "chain \<Rightarrow> int option \<Rightarrow> metagraph_data st_m" where
  "Precaching_get_metagraph ch =
     get_metagraph ch (Precaching_get_block_hash ch) (Precaching_list_neurons ch)
       (Precaching_get_subnet_state ch)"

subsection \<open>The producer thread\<close>

text \<open>
  One pass through the body of \<^verbatim>\<open>while True\<close> in \<^verbatim>\<open>produce_thread\<close>. \<open>Quit\<close> is the
  \<^verbatim>\<open>return\<close> on \<^verbatim>\<open>closing\<close>; every other path continues with the next pass. Both
  \<^verbatim>\<open>except\<close> clauses sleep one second.
\<close>

datatype loop_control = Continue | Quit

definition tasks_for :: "int \<Rightarrow> (task_type \<times> int) list" where
  "tasks_for block_to_submit =
     [(NEURONS, block_to_submit), (BLOCK_TIMESTAMP, block_to_submit),
      (BLOCK_HASH, block_to_submit), (SUBNET_STATE, block_to_submit),
      (VALIDATORS, block_to_submit)]"

definition produce_iteration :: "chain \<Rightarrow> supertensor \<Rightarrow> loop_control \<times> supertensor" where
  "produce_iteration ch s =
     (if closing s then (Quit, s)
      else case get_current_block ch s of
             (Inl e, s1) \<Rightarrow> (Continue, sleep 1 s1)
           | (Inr current_block, s1) \<Rightarrow>
               (case (highest_block_requested s1, highest_block_submitted s1) of
                  (Some requested, Some submitted) \<Rightarrow>
                    if CACHE_AHEAD \<le> submitted - requested then (Continue, sleep (1 / 10) s1)
                    else if current_block \<le> submitted then (Continue, sleep (1 / 10) s1)
                    else (let block_to_submit = submitted + 1
                          in (Continue,
                              s1\<lparr>task_queue := task_queue s1 @ tasks_for block_to_submit,
                                 highest_block_submitted := Some block_to_submit\<rparr>))
                | _ \<Rightarrow> (Continue, sleep (1 / 10) s1)))"

text \<open>
  The producer runs beside the consumers of the cache. A run of the object is a
  sequence of actions, each taken atomically: a pass of the producer, or a consumer
  read of a block, which starts with \<^verbatim>\<open>set_starting_block\<close>.
\<close>

datatype action = Produce | Request int

fun perform :: "chain \<Rightarrow> action \<Rightarrow> supertensor \<Rightarrow> supertensor" where
  "perform ch Produce s = snd (produce_iteration ch s)"
| "perform ch (Request block_number) s = set_starting_block block_number s"

fun run_actions :: "chain \<Rightarrow> action list \<Rightarrow> supertensor \<Rightarrow> supertensor" where
  "run_actions ch [] s = s"
| "run_actions ch (a # as) s = run_actions ch as (perform ch a s)"

text \<open>
  A fresh \<^verbatim>\<open>PrecachingSuperTensor\<close> with an empty \<^verbatim>\<open>InMemoryCache\<close>.
\<close>

definition new_precaching :: "bool \<Rightarrow> bool \<Rightarrow> supertensor" where
  "new_precaching archive throw =
     \<lparr>calls = 0, events = [], archive_configured = archive, neuron_list_cache = [],
      neuron_cache = Map.empty, block_timestamp_cache = Map.empty,
      block_hash_cache = Map.empty, subnet_state_cache = Map.empty,
      validators_cache = Map.empty, throw_on_cache_miss = throw,
      highest_block_requested = None, highest_block_submitted = None,
      task_queue = [], closing = False\<rparr>"

section \<open>Receipt transfer (\<^verbatim>\<open>transfer_receipts.py\<close>)\<close>

datatype config_error = KeyError

datatype transfer_error = TransferIsDisabled

text \<open>
  What a coroutine of the command does, in order: the answer it got from
  \<^verbatim>\<open>aget_config("DYNAMIC_RECEIPT_TRANSFER_ENABLED")\<close>, a call of
  \<^verbatim>\<open>ReceiptsTransfer.transfer\<close> (pages, size of the semaphore, request timeout), and a
  sleep (seconds).
\<close>

datatype transfer_event =
    Consulted "config_error + bool"
  | Transferred "int list" nat rat
  | Slept rat

text \<open>
  \<^verbatim>\<open>_throw_if_disabled\<close>, as a function of the answer of \<^verbatim>\<open>aget_config\<close>: it returns
  when the value is true; on a false value, and after the warning it logs on
  \<^verbatim>\<open>KeyError\<close>, it raises \<^verbatim>\<open>TransferIsDisabled\<close>.
\<close>

definition throw_if_disabled :: "config_error + bool \<Rightarrow> transfer_error + unit" where
  "throw_if_disabled answer =
     (case answer of
        Inr True \<Rightarrow> Inr ()
      | Inr False \<Rightarrow> Inl TransferIsDisabled
      | Inl KeyError \<Rightarrow> Inl TransferIsDisabled)"

text \<open>
  A coroutine carries the number of times it has consulted the flag and its log. The
  flag is dynamic configuration: \<open>enabled k\<close> is the answer to the coroutine's consult
  number \<open>k\<close>.
\<close>

record coroutine =
  consults :: nat
  tlog :: "transfer_event list"

definition new_coroutine :: coroutine where
  "new_coroutine = \<lparr>consults = 0, tlog = []\<rparr>"

definition consult :: "(nat \<Rightarrow> config_error + bool) \<Rightarrow> coroutine \<Rightarrow> (transfer_error + unit) \<times> coroutine" where
  "consult enabled c =
     (let answer = enabled (consults c)
      in (throw_if_disabled answer,
          c\<lparr>consults := consults c + 1, tlog := tlog c @ [Consulted answer]\<rparr>))"

definition transfer :: "int list \<Rightarrow> nat \<Rightarrow> rat \<Rightarrow> coroutine \<Rightarrow> coroutine" where
  "transfer pages semaphore request_timeout c =
     c\<lparr>tlog := tlog c @ [Transferred pages semaphore request_timeout]\<rparr>"

text \<open>\<^verbatim>\<open>catch_up\<close>: the \<^verbatim>\<open>for\<close> loop over the pages, one page per transfer.\<close>

fun catch_up ::
  "(nat \<Rightarrow> config_error + bool) \<Rightarrow> int list \<Rightarrow> nat \<Rightarrow> coroutine \<Rightarrow> (transfer_error + unit) \<times> coroutine" where
  "catch_up enabled [] semaphore c = (Inr (), c)"
| "catch_up enabled (page # pages) semaphore c =
     (case consult enabled c of
        (Inl e, c1) \<Rightarrow> (Inl e, c1)
      | (Inr _, c1) \<Rightarrow> catch_up enabled pages semaphore (transfer [page] semaphore 3 c1))"

text \<open>
  \<^verbatim>\<open>LocalFilesystemPagedReceiptStore\<close> is not part of these sources:
  \<open>current_page_at\<close> maps a time (seconds) to its page, and \<open>current_page\<close> is the
  value \<^verbatim>\<open>current_page()\<close> returns when it is called. \<^verbatim>\<open>range(a, b + 1)\<close> reversed is
  \<open>rev [a..b]\<close>.
\<close>

definition run_once ::
  "(rat \<Rightarrow> int) \<Rightarrow> int \<Rightarrow> (nat \<Rightarrow> config_error + bool) \<Rightarrow> rat \<Rightarrow> coroutine \<Rightarrow>
   (transfer_error + unit) \<times> coroutine" where
  "run_once current_page_at current_page enabled cutoff c =
     (let catchup_cutoff_page = current_page_at cutoff
      in catch_up enabled (rev [catchup_cutoff_page..current_page]) 50 c)"

text \<open>
  \<^verbatim>\<open>handle\<close> without \<^verbatim>\<open>--daemon\<close>: \<^verbatim>\<open>cutoff = timezone.now() - timedelta(hours=5)\<close>,
  then \<^verbatim>\<open>run_once\<close>; nothing catches \<^verbatim>\<open>TransferIsDisabled\<close> here.
\<close>

definition handle_once ::
  "(rat \<Rightarrow> int) \<Rightarrow> int \<Rightarrow> (nat \<Rightarrow> config_error + bool) \<Rightarrow> rat \<Rightarrow> (transfer_error + unit) \<times> coroutine" where
  "handle_once current_page_at current_page enabled now =
     run_once current_page_at current_page enabled (now - 5 * 3600) new_coroutine"

subsection \<open>Daemon mode\<close>

text \<open>
  \<^verbatim>\<open>keep_up\<close> is a \<^verbatim>\<open>while True\<close> loop; the model runs at most \<open>fuel\<close> passes and
  answers \<open>None\<close> when the loop is still running after them. Pass number \<open>k\<close> (counted
  by the consults) reads the current page \<open>page_now k\<close>, the configured interval and
  the seconds the pass took.
\<close>

record keep_up_env =
  hot_enabled :: "nat \<Rightarrow> config_error + bool"
  page_now :: "nat \<Rightarrow> int"
  interval :: "nat \<Rightarrow> rat"
  elapsed :: "nat \<Rightarrow> rat"

fun keep_up :: "nat \<Rightarrow> keep_up_env \<Rightarrow> int \<Rightarrow> coroutine \<Rightarrow> transfer_error option \<times> coroutine" where
  "keep_up 0 env n_active_pages c = (None, c)"
| "keep_up (Suc fuel) env n_active_pages c =
     (case consult (hot_enabled env) c of
        (Inl e, c1) \<Rightarrow> (Some e, c1)
      | (Inr _, c1) \<Rightarrow>
          (let k = consults c;
               current_page = page_now env k;
               pages = rev [current_page - n_active_pages + 1..current_page];
               c2 = transfer pages 50 1 c1;
               c3 = (if elapsed env k < interval env k
                     then c2\<lparr>tlog := tlog c2 @ [Slept (interval env k - elapsed env k)]\<rparr>
                     else c2)
           in keep_up fuel env n_active_pages c3))"

text \<open>
  \<^verbatim>\<open>run_in_loop\<close>. The first \<^verbatim>\<open>catch_up\<close> over the active pages runs inside the
  calling task. Then \<^verbatim>\<open>asyncio.gather\<close> runs the catch-up over the older pages and
  \<^verbatim>\<open>keep_up\<close> as two tasks and raises the first exception one of them raises; it
  does not cancel the other task. The control flow of either task depends only on
  the answers it reads, so each task has its own answers and its own log, whatever
  the interleaving. The round ends \<open>Disabled\<close> when \<^verbatim>\<open>TransferIsDisabled\<close> reaches
  \<^verbatim>\<open>handle\<close>; it is \<open>Running\<close> when the fuel of \<^verbatim>\<open>keep_up\<close> ran out first.
\<close>

record round_env =
  sweep_enabled :: "nat \<Rightarrow> config_error + bool"
  cold_enabled :: "nat \<Rightarrow> config_error + bool"
  hot_env :: keep_up_env
  round_current_page :: int

record round_log =
  sweep :: "transfer_event list"
  cold :: "transfer_event list"
  hot :: "transfer_event list"

datatype round_end = Disabled | Running

definition run_in_loop ::
  "(rat \<Rightarrow> int) \<Rightarrow> int \<Rightarrow> nat \<Rightarrow> round_env \<Rightarrow> rat \<Rightarrow> round_end \<times> round_log" where
  "run_in_loop current_page_at n_active_pages fuel env cutoff =
     (let catchup_cutoff_page = current_page_at cutoff;
          current_page = round_current_page env
      in case catch_up (sweep_enabled env)
                (rev [current_page - n_active_pages + 1..current_page]) 50 new_coroutine of
           (Inl e, c1) \<Rightarrow> (Disabled, \<lparr>sweep = tlog c1, cold = [], hot = []\<rparr>)
         | (Inr _, c1) \<Rightarrow>
             (let (r_cold, c_cold) =
                    catch_up (cold_enabled env)
                      (rev [catchup_cutoff_page..current_page - n_active_pages]) 10 new_coroutine;
                  (r_hot, c_hot) = keep_up fuel (hot_env env) n_active_pages new_coroutine
              in (if r_cold = Inl TransferIsDisabled \<or> r_hot = Some TransferIsDisabled
                  then Disabled else Running,
                  \<lparr>sweep = tlog c1, cold = tlog c_cold, hot = tlog c_hot\<rparr>)))"

text \<open>
  \<^verbatim>\<open>handle\<close> with \<^verbatim>\<open>--daemon\<close>: \<^verbatim>\<open>while True: try: run_in_loop(...) except
  TransferIsDisabled: sleep(60)\<close>, for at most \<open>rounds\<close> rounds; \<open>env r\<close> is what round
  \<open>r\<close> reads. The cutoff is computed once, before the loop.
\<close>

datatype daemon_item = Round round_log | DaemonSlept rat

fun daemon_loop ::
  "nat \<Rightarrow> (rat \<Rightarrow> int) \<Rightarrow> int \<Rightarrow> nat \<Rightarrow> (nat \<Rightarrow> round_env) \<Rightarrow> rat \<Rightarrow> nat \<Rightarrow> daemon_item list" where
  "daemon_loop 0 current_page_at n_active_pages fuel env cutoff r = []"
| "daemon_loop (Suc rounds) current_page_at n_active_pages fuel env cutoff r =
     (case run_in_loop current_page_at n_active_pages fuel (env r) cutoff of
        (Disabled, lg) \<Rightarrow>
          Round lg # DaemonSlept 60 #
          daemon_loop rounds current_page_at n_active_pages fuel env cutoff (Suc r)
      | (Running, lg) \<Rightarrow> [Round lg])"

definition handle_daemon ::
  "nat \<Rightarrow> (rat \<Rightarrow> int) \<Rightarrow> int \<Rightarrow> nat \<Rightarrow> (nat \<Rightarrow> round_env) \<Rightarrow> rat \<Rightarrow> daemon_item list" where
  "handle_daemon rounds current_page_at n_active_pages fuel env now =
     daemon_loop rounds current_page_at n_active_pages fuel env (now - 5 * 3600) 0"

section \<open>Output upload (\<^verbatim>\<open>_uploader.py\<close>)\<close>

datatype upload_error = OutputUploadFailed string

definition OUTPUT_UPLOAD_TIMEOUT_SECONDS :: nat where
  "OUTPUT_UPLOAD_TIMEOUT_SECONDS = 300"

definition MAX_NUMBER_OF_FILES :: nat where
  "MAX_NUMBER_OF_FILES = 1000"

definition MAX_CONCURRENT_UPLOADS :: nat where
  "MAX_CONCURRENT_UPLOADS = 3"

definition DEFAULT_MAX_SIZE_BYTES :: int where
  "DEFAULT_MAX_SIZE_BYTES = 2147483648"

text \<open>
  A directory is the list of relative paths that \<^verbatim>\<open>directory.glob("**/*")\<close> yields
  (files and subdirectories). \<^verbatim>\<open>set(exclude) if exclude else set()\<close>: no list and the
  empty list both exclude nothing.
\<close>

definition filtered_files :: "string list \<Rightarrow> string list option \<Rightarrow> string list" where
  "filtered_files files exclude =
     (let exclude_set = (case exclude of None \<Rightarrow> {} | Some ex \<Rightarrow> if ex = [] then {} else set ex)
      in filter (\<lambda>file. file \<notin> exclude_set) files)"

text \<open>
  \<^verbatim>\<open>zipped_directory\<close> is a context manager: the body of the caller's \<^verbatim>\<open>with\<close>
  statement runs at the \<^verbatim>\<open>yield\<close>, with the size of the zip and the file object (here:
  the list of archived paths). \<open>zip_size\<close> is the size of the archive that
  \<^verbatim>\<open>zipfile\<close> writes for the given entries; \<open>'s\<close> is whatever state the body changes.
\<close>

definition zipped_directory ::
  "(string list \<Rightarrow> nat) \<Rightarrow> string list \<Rightarrow> string list option \<Rightarrow> int \<Rightarrow>
   (nat \<times> string list \<Rightarrow> 's \<Rightarrow> (upload_error + 'a) \<times> 's) \<Rightarrow> 's \<Rightarrow> (upload_error + 'a) \<times> 's" where
  "zipped_directory zip_size files exclude max_size_bytes body s =
     (let filtered = filtered_files files exclude
      in if MAX_NUMBER_OF_FILES < length filtered
         then (Inl (OutputUploadFailed ''Attempting to upload too many files''), s)
         else (let file_size = zip_size filtered
               in if max_size_bytes < int file_size
                  then (Inl (OutputUploadFailed ''Attempting to upload too large file''), s)
                  else body (file_size, filtered) s))"

text \<open>
  The two zip uploaders: \<^verbatim>\<open>upload_post\<close> and \<^verbatim>\<open>upload_put\<close> are called inside the
  \<^verbatim>\<open>with\<close> block only. They are arguments here: an upload is any change of the state
  of the network \<open>'s\<close>. \<^verbatim>\<open>OutputUploader.__init__\<close> sets \<^verbatim>\<open>max_size_bytes\<close> to
  2147483648.
\<close>

definition ZipAndHTTPPostOutputUploader_upload ::
  "(string list \<Rightarrow> nat) \<Rightarrow>
   (string list \<Rightarrow> string \<Rightarrow> nat \<Rightarrow> 's \<Rightarrow> (upload_error + unit) \<times> 's) \<Rightarrow>
   string list \<Rightarrow> 's \<Rightarrow> (upload_error + unit) \<times> 's" where
  "ZipAndHTTPPostOutputUploader_upload zip_size upload_post directory =
     zipped_directory zip_size directory None DEFAULT_MAX_SIZE_BYTES
       (\<lambda>(file_size, fp). upload_post fp ''output.zip'' file_size)"

definition ZipAndHTTPPutOutputUploader_upload ::
  "(string list \<Rightarrow> nat) \<Rightarrow>
   (string list \<Rightarrow> nat \<Rightarrow> 's \<Rightarrow> (upload_error + unit) \<times> 's) \<Rightarrow>
   string list \<Rightarrow> 's \<Rightarrow> (upload_error + unit) \<times> 's" where
  "ZipAndHTTPPutOutputUploader_upload zip_size upload_put directory =
     zipped_directory zip_size directory None DEFAULT_MAX_SIZE_BYTES
       (\<lambda>(file_size, fp). upload_put fp file_size)"

section \<open>Organic job driver (\<^verbatim>\<open>miner_driver.py\<close>)\<close>

text \<open>
  \<^verbatim>\<open>FailureReason\<close> of \<^verbatim>\<open>compute_horde.miner_client.organic\<close>, declared outside
  these sources. Its members here are the eight that \<^verbatim>\<open>drive_organic_job\<close> compares
  \<^verbatim>\<open>exc.reason\<close> with, and \<^verbatim>\<open>VOLUMES_TIMED_OUT\<close>, which
  \<^verbatim>\<open>test_miner_gets_blacklisted.py\<close> expects in the comment of a \<open>failed\<close> update
  (\<^verbatim>\<open>"timed out: FailureReason.VOLUMES_TIMED_OUT"\<close>) when the miner stays silent after
  \<^verbatim>\<open>V0ExecutorReadyRequest\<close>.
\<close>

datatype failure_reason =
    MINER_CONNECTION_FAILED
  | INITIAL_RESPONSE_TIMED_OUT
  | JOB_DECLINED
  | EXECUTOR_READINESS_RESPONSE_TIMED_OUT
  | STREAMING_JOB_READY_TIMED_OUT
  | EXECUTOR_FAILED
  | FINAL_RESPONSE_TIMED_OUT
  | JOB_FAILED
  | VOLUMES_TIMED_OUT

text \<open>
  What \<^verbatim>\<open>drive_organic_job\<close> can raise itself: the \<^verbatim>\<open>AssertionError\<close> of
  \<^verbatim>\<open>typing.assert_never\<close>.
\<close>

datatype driver_error = AssertionError

text \<open>
  \<^verbatim>\<open>V0DeclineJobRequest.Reason\<close>: \<^verbatim>\<open>BUSY\<close>, or any other member (by its name).
\<close>

datatype decline_reason = BUSY | NOT_BUSY string

datatype job_failed_error_type = HUGGINGFACE_DOWNLOAD

text \<open>The attributes of a receipt that the excuse policy reads.\<close>

record receipt =
  receipt_job_uuid :: string
  receipt_miner_hotkey :: string
  receipt_validator_hotkey :: string
  receipt_timestamp :: int
  receipt_executor_class :: string
  receipt_is_synthetic :: bool

text \<open>
  The last message of the miner that an \<^verbatim>\<open>OrganicJobError\<close> carries:
  \<^verbatim>\<open>V0DeclineJobRequest(reason, receipts)\<close>,
  \<^verbatim>\<open>V0JobFailedRequest(docker_process_stdout, docker_process_stderr, error_type,
  error_detail)\<close>, or another message.
\<close>

datatype miner_message =
    V0DeclineJobRequest decline_reason "receipt list option"
  | V0JobFailedRequest string string "job_failed_error_type option" "string option"
  | OtherMessage string

text \<open>
  \<^verbatim>\<open>OrganicJobError\<close>: \<open>received_str\<close> is \<^verbatim>\<open>exc.received_str()\<close>, \<open>error_str\<close> is
  \<^verbatim>\<open>str(exc)\<close>.
\<close>

record organic_job_error =
  reason :: failure_reason
  received :: "miner_message option"
  received_str :: string
  error_str :: string

datatype organic_job_status = PENDING | COMPLETED | FAILED | EXCUSED

text \<open>\<^verbatim>\<open>JobStatusType\<close>.\<close>

datatype job_status_type =
  Received | Accepted | ExecutorReady | VolumesReady | Rejected | Failed | Completed

datatype event_subtype =
    SUCCESS
  | MINER_CONNECTION_ERROR
  | JOB_NOT_STARTED
  | JOB_EXCUSED
  | JOB_REJECTED
  | JOB_EXECUTION_TIMEOUT
  | FAILURE
  | ERROR_DOWNLOADING_FROM_HUGGINGFACE

record organic_job =
  job_uuid :: string
  job_miner_hotkey :: string
  job_executor_class :: string
  on_trusted_miner :: bool
  status :: organic_job_status
  comment :: string
  stdout :: string
  stderr :: string
  artifacts :: "(string \<times> string) list"
  error_type :: "job_failed_error_type option"
  error_detail :: "string option"

text \<open>\<^verbatim>\<open>JobStatusUpdate\<close> with its \<^verbatim>\<open>JobStatusMetadata\<close> and \<^verbatim>\<open>MinerResponse\<close>, flattened.\<close>

record job_status_update =
  update_uuid :: string
  update_status :: job_status_type
  update_comment :: string
  update_message_type :: "string option"
  update_stdout :: string
  update_stderr :: string
  update_artifacts :: "(string \<times> string) list"

definition status_update_from_job ::
  "organic_job \<Rightarrow> job_status_type \<Rightarrow> string option \<Rightarrow> job_status_update" where
  "status_update_from_job j st message_type =
     \<lparr>update_uuid = job_uuid j, update_status = st, update_comment = comment j,
      update_message_type = message_type, update_stdout = stdout j,
      update_stderr = stderr j, update_artifacts = artifacts j\<rparr>"

text \<open>
  \<^verbatim>\<open>SystemEvent\<close>: \<open>event_success\<close> distinguishes \<^verbatim>\<open>MINER_ORGANIC_JOB_SUCCESS\<close> from
  \<^verbatim>\<open>MINER_ORGANIC_JOB_FAILURE\<close>.
\<close>

record system_event =
  event_success :: bool
  event_subtype :: event_subtype
  long_description :: string

text \<open>
  The state the driver changes: the job row in memory, the rows written by
  \<^verbatim>\<open>job.asave()\<close>, the system events created, and the updates passed to
  \<^verbatim>\<open>notify_callback\<close>, in order.
\<close>

record driver_state =
  job :: organic_job
  saved :: "organic_job list"
  system_events :: "system_event list"
  notified :: "job_status_update list"

text \<open>
  What the driver reads: the name of the miner, dynamic configuration, the three
  timeouts, the timestamp of the \<^verbatim>\<open>JobStartedReceipt\<close> stored for the job, the stake
  of a validator hotkey, the answer of
  \<^verbatim>\<open>job_excuses.get_expected_miner_executor_count(check_time, miner_hotkey,
  executor_class)\<close>, and Python's \<^verbatim>\<open>repr\<close> and \<^verbatim>\<open>str\<close> for the f-strings.
\<close>

record driver_env =
  miner_name :: string
  DYNAMIC_DISABLE_TRUSTED_ORGANIC_JOB_EVENTS :: bool
  total_job_timeout :: int
  initial_response_timeout :: int
  executor_ready_timeout :: int
  job_request_time :: int
  DYNAMIC_MINIMUM_VALIDATOR_STAKE_FOR_EXCUSE :: rat
  validator_stake :: "string \<Rightarrow> rat"
  get_expected_miner_executor_count :: "int \<Rightarrow> string \<Rightarrow> string \<Rightarrow> int"
  repr :: "string \<Rightarrow> string"
  str_int :: "int \<Rightarrow> string"

text \<open>
  What \<^verbatim>\<open>run_organic_job\<close> did: the message types with which the miner client called
  \<^verbatim>\<open>notify_job_accepted\<close> during the run, and either the raised \<^verbatim>\<open>OrganicJobError\<close>
  or the returned \<^verbatim>\<open>(stdout, stderr, artifacts)\<close>.
\<close>

record run_result =
  accept_notifications :: "string list"
  run_outcome :: "organic_job_error + (string \<times> string \<times> (string \<times> string) list)"

text \<open>
  Modelled from the spec: \<^verbatim>\<open>job_excuses.filter_valid_excuse_receipts\<close> is not among
  the sources. Specification 4.4 (excuse policy): the receipts that count are those
  ``issued by validators with stake \<open>\<ge>\<close> configured floor'', ``filtered for
  \<open>timestamp \<le> job_request_time\<close>, same executor class, non-synthetic, same miner''.
  The arguments are those of the call in \<^verbatim>\<open>drive_organic_job\<close>.
\<close>

definition filter_valid_excuse_receipts ::
  "(string \<Rightarrow> rat) \<Rightarrow> receipt list \<Rightarrow> int \<Rightarrow> string \<Rightarrow> string \<Rightarrow> bool \<Rightarrow> rat \<Rightarrow> string \<Rightarrow> receipt list" where
  "filter_valid_excuse_receipts stake_of receipts_to_check check_time declined_job_uuid
     declined_job_executor_class declined_job_is_synthetic
     minimum_validator_stake_for_excuse miner_hotkey =
     filter (\<lambda>r. minimum_validator_stake_for_excuse \<le> stake_of (receipt_validator_hotkey r)
               \<and> receipt_timestamp r \<le> check_time
               \<and> receipt_executor_class r = declined_job_executor_class
               \<and> \<not> receipt_is_synthetic r
               \<and> receipt_miner_hotkey r = miner_hotkey)
       receipts_to_check"

text \<open>
  \<^verbatim>\<open>save_event\<close>: a no-op for a job on the trusted miner when
  \<^verbatim>\<open>DYNAMIC_DISABLE_TRUSTED_ORGANIC_JOB_EVENTS\<close> is set, else
  \<^verbatim>\<open>save_job_execution_event\<close>.
\<close>

definition save_event :: "driver_env \<Rightarrow> event_subtype \<Rightarrow> string \<Rightarrow> bool \<Rightarrow> driver_state \<Rightarrow> driver_state" where
  "save_event env subtype description success d =
     (if on_trusted_miner (job d) \<and> DYNAMIC_DISABLE_TRUSTED_ORGANIC_JOB_EVENTS env then d
      else d\<lparr>system_events := system_events d @
                [\<lparr>event_success = success, event_subtype = subtype,
                  long_description = description\<rparr>]\<rparr>)"

text \<open>
  The steps every branch of \<^verbatim>\<open>drive_organic_job\<close> ends with: set \<^verbatim>\<open>job.status\<close> and
  \<^verbatim>\<open>job.comment\<close>, \<^verbatim>\<open>job.asave()\<close>, \<^verbatim>\<open>save_event\<close>, and one \<^verbatim>\<open>notify_callback\<close> with
  \<^verbatim>\<open>status_update_from_job\<close>.
\<close>

definition conclude ::
  "driver_env \<Rightarrow> organic_job_status \<Rightarrow> string \<Rightarrow> event_subtype \<Rightarrow> bool \<Rightarrow> job_status_type \<Rightarrow>
   string option \<Rightarrow> driver_state \<Rightarrow> driver_state" where
  "conclude env job_status cmt subtype success update_st message_type d =
     (let j = (job d)\<lparr>status := job_status, comment := cmt\<rparr>;
          d1 = d\<lparr>job := j, saved := saved d @ [j]\<rparr>;
          d2 = save_event env subtype cmt success d1
      in d2\<lparr>notified := notified d2 @ [status_update_from_job j update_st message_type]\<rparr>)"

text \<open>
  \<^verbatim>\<open>drive_organic_job\<close>, given what \<^verbatim>\<open>run_organic_job\<close> did. The result is what the
  call returns or raises, and the final state. The branches of the \<^verbatim>\<open>except\<close> block
  fall through to \<^verbatim>\<open>return False\<close>; its closing \<^verbatim>\<open>else: assert_never(exc.reason)\<close>
  raises \<^verbatim>\<open>AssertionError\<close> before anything is saved or notified.
\<close>

definition drive_organic_job ::
  "driver_env \<Rightarrow> run_result \<Rightarrow> driver_state \<Rightarrow> (driver_error + bool) \<times> driver_state" where
  "drive_organic_job env res d0 =
     (let d = d0\<lparr>notified := notified d0 @
                    map (\<lambda>message_type.
                           status_update_from_job (job d0) Accepted (Some message_type))
                      (accept_notifications res)\<rparr>;
          j = job d
      in case run_outcome res of
           Inr (out, err, arts) \<Rightarrow>
             (Inr True,
              conclude env COMPLETED
                (''Miner '' @ miner_name env @ '' finished: stdout='' @ repr env out
                   @ '' stderr='' @ repr env err)
                SUCCESS True Completed (Some ''V0JobFinishedRequest'')
                (d\<lparr>job := j\<lparr>stdout := out, stderr := err, artifacts := arts\<rparr>\<rparr>))
         | Inl exc \<Rightarrow>
             (case reason exc of
                MINER_CONNECTION_FAILED \<Rightarrow>
                  (Inr False,
                   conclude env FAILED (''Miner connection error: '' @ error_str exc)
                     MINER_CONNECTION_ERROR False Failed None d)
              | INITIAL_RESPONSE_TIMED_OUT \<Rightarrow>
                  (Inr False,
                   conclude env FAILED
                     (''Miner '' @ miner_name env @ '' timed out waiting for initial response ''
                        @ job_uuid j @ '' after '' @ str_int env (initial_response_timeout env)
                        @ '' seconds'')
                     JOB_NOT_STARTED False Failed None d)
              | JOB_DECLINED \<Rightarrow>
                  (Inr False,
                   case received exc of
                     Some (V0DeclineJobRequest BUSY receipts) \<Rightarrow>
                       (let valid_excuses =
                              filter_valid_excuse_receipts (validator_stake env)
                                (case receipts of None \<Rightarrow> [] | Some rs \<Rightarrow> rs)
                                (job_request_time env) (job_uuid j) (job_executor_class j)
                                False (DYNAMIC_MINIMUM_VALIDATOR_STAKE_FOR_EXCUSE env)
                                (job_miner_hotkey j);
                            expected_executor_count =
                              get_expected_miner_executor_count env (job_request_time env)
                                (job_miner_hotkey j) (job_executor_class j)
                        in if expected_executor_count \<le> int (length valid_excuses)
                           then conclude env EXCUSED
                                  (''Miner properly excused job '' @ miner_name env @ '': ''
                                     @ received_str exc)
                                  JOB_EXCUSED False Rejected None d
                           else conclude env FAILED
                                  (''Miner failed to excuse job '' @ miner_name env @ '': ''
                                     @ received_str exc)
                                  JOB_REJECTED False Rejected None d)
                   | _ \<Rightarrow>
                       conclude env FAILED
                         (''Miner declined job '' @ miner_name env @ '': '' @ received_str exc)
                         JOB_REJECTED False Rejected None d)
              | EXECUTOR_READINESS_RESPONSE_TIMED_OUT \<Rightarrow>
                  (Inr False,
                   conclude env FAILED
                     (''Miner '' @ miner_name env @ '' timed out while preparing executor for job ''
                        @ job_uuid j @ '' after '' @ str_int env (executor_ready_timeout env)
                        @ '' seconds'')
                     JOB_NOT_STARTED False Failed None d)
              | STREAMING_JOB_READY_TIMED_OUT \<Rightarrow>
                  (Inr False,
                   conclude env FAILED
                     (''Streaming job '' @ job_uuid j @ '' not ready after ''
                        @ str_int env (executor_ready_timeout env) @ '' seconds'')
                     JOB_NOT_STARTED False Failed None d)
              | EXECUTOR_FAILED \<Rightarrow>
                  (Inr False,
                   conclude env FAILED
                     (''Miner '' @ miner_name env @ '' failed to start executor: ''
                        @ received_str exc)
                     JOB_REJECTED False Failed None d)
              | FINAL_RESPONSE_TIMED_OUT \<Rightarrow>
                  (Inr False,
                   conclude env FAILED
                     (''Miner '' @ miner_name env @ '' timed out after ''
                        @ str_int env (total_job_timeout env) @ '' seconds'')
                     JOB_EXECUTION_TIMEOUT False Failed None d)
              | JOB_FAILED \<Rightarrow>
                  (Inr False,
                   let cmt = ''Miner '' @ miner_name env @ '' failed: '' @ received_str exc
                   in case received exc of
                        Some (V0JobFailedRequest out err etype edetail) \<Rightarrow>
                          conclude env FAILED cmt
                            (case etype of
                               None \<Rightarrow> FAILURE
                             | Some HUGGINGFACE_DOWNLOAD \<Rightarrow> ERROR_DOWNLOADING_FROM_HUGGINGFACE)
                            False Failed (Some ''V0JobFailedRequest'')
                            (d\<lparr>job := j\<lparr>stdout := out, stderr := err, error_type := etype,
                                        error_detail := edetail\<rparr>\<rparr>)
                      | _ \<Rightarrow>
                          conclude env FAILED cmt FAILURE False Failed
                            (Some ''V0JobFailedRequest'') d)
              | VOLUMES_TIMED_OUT \<Rightarrow> (Inl AssertionError, d)))"

definition new_driver_state :: "organic_job \<Rightarrow> driver_state" where
  "new_driver_state j = \<lparr>job = j, saved = [], system_events = [], notified = []\<rparr>"

text \<open>The terminal statuses of an update.\<close>

definition is_terminal :: "job_status_update \<Rightarrow> bool" where
  "is_terminal u = (update_status u = Completed \<or> update_status u = Failed \<or> update_status u = Rejected)"

section \<open>Observations and sample inputs\<close>

text \<open>The transfer calls of a log.\<close>

fun is_transfer :: "transfer_event \<Rightarrow> bool" where
  "is_transfer (Transferred pages semaphore request_timeout) = True"
| "is_transfer _ = False"

text \<open>A page store with pages of one hour, counted from time 0.\<close>

definition hour_pages :: "rat \<Rightarrow> int" where
  "hour_pages t = \<lfloor>t / 3600\<rfloor>"

text \<open>A directory listing of 1001 entries.\<close>

definition long_listing :: "string list" where
  "long_listing = map (\<lambda>n. replicate n (CHR ''a'')) [1..<1002]"

text \<open>
  A chain of three neurons that answers every read within a second. Neuron 0 and
  neuron 5 have validator stake; the subnet state lists a total stake for uid 0 and
  \<^verbatim>\<open>None\<close> for uid 1, and is shorter than uid 5.
\<close>

definition demo_neurons :: "neuron list" where
  "demo_neurons =
     [\<lparr>uid = 0, hotkey = ''v0'', stake = 2000, axon_ip = None\<rparr>,
      \<lparr>uid = 1, hotkey = ''m1'', stake = 5, axon_ip = Some ''10.0.0.1''\<rparr>,
      \<lparr>uid = 5, hotkey = ''v5'', stake = 1000, axon_ip = None\<rparr>]"

definition demo_state :: subnet_state where
  "demo_state = \<lparr>total_stake = Some [Some 2500, None]\<rparr>"

definition demo_chain :: chain where
  "demo_chain =
     \<lparr>chain_list_neurons = (\<lambda>src b k. (1, Inr demo_neurons)),
      chain_get_timestamp = (\<lambda>src b k. (1, Inr (12 * b))),
      chain_get_state = (\<lambda>src b k. (1, Inr demo_state)),
      chain_block_hash = (\<lambda>src b k. (1, Inr ''0xabc'')),
      chain_shielded_neurons = (\<lambda>k. (1, Inr demo_neurons)),
      chain_head = (\<lambda>k. Inr 105)\<rparr>"

text \<open>
  The queue of a prefetch cache holds the tasks of a run of consecutive blocks that
  ends at \<open>highest_block_submitted\<close> (no worker has taken a task yet).
\<close>

definition queue_inv :: "supertensor \<Rightarrow> bool" where
  "queue_inv s =
     (case highest_block_submitted s of
        None \<Rightarrow> task_queue s = []
      | Some h \<Rightarrow> (\<exists>n. task_queue s = concat (map tasks_for [h - int n + 1..h])))"

text \<open>A job on miner A, a driver environment that expects two executors, and excuse receipts.\<close>

definition demo_job :: organic_job where
  "demo_job =
     \<lparr>job_uuid = ''job-1'', job_miner_hotkey = ''miner-A'', job_executor_class = ''spin_up-4min'',
      on_trusted_miner = False, status = PENDING, comment = [], stdout = [], stderr = [],
      artifacts = [], error_type = None, error_detail = None\<rparr>"

definition demo_env :: driver_env where
  "demo_env =
     \<lparr>miner_name = ''miner-A@10.0.0.1'',
      DYNAMIC_DISABLE_TRUSTED_ORGANIC_JOB_EVENTS = False,
      total_job_timeout = 300, initial_response_timeout = 3, executor_ready_timeout = 300,
      job_request_time = 1000,
      DYNAMIC_MINIMUM_VALIDATOR_STAKE_FOR_EXCUSE = 30000,
      validator_stake = (\<lambda>h. if h = ''vali-big'' then 50000 else 10),
      get_expected_miner_executor_count = (\<lambda>t m c. 2),
      repr = (\<lambda>s. CHR 0x27 # s @ [CHR 0x27]),
      str_int = (\<lambda>i. ''N'')\<rparr>"




text \<open>
  A run in which the miner accepted the job and then \<^verbatim>\<open>run_organic_job\<close> raised
  \<^verbatim>\<open>OrganicJobError(FailureReason.VOLUMES_TIMED_OUT)\<close>.
\<close>

definition volumes_timed_out :: run_result where
  "volumes_timed_out =
     \<lparr>accept_notifications = [''V0AcceptJobRequest''],
      run_outcome = Inl \<lparr>reason = VOLUMES_TIMED_OUT, received = None,
                          received_str = ''None'',
                          error_str = ''FailureReason.VOLUMES_TIMED_OUT''\<rparr>\<rparr>"


text \<open>
  Observations on the event log of the chain oracle. An event is within the policy
  when it is a chain read of at most 30 seconds or a sleep between 0.1 and 0.8
  seconds; \<open>reads P s\<close> counts the events of the log that satisfy \<open>P\<close>. The slow
  chain needs 31 seconds for every answer.
\<close>

fun within_policy :: "st_event \<Rightarrow> bool" where
  "within_policy (ChainRead k src b seconds) = (seconds \<le> DEFAULT_TIMEOUT)"
| "within_policy (ShieldedRead seconds) = (seconds \<le> DEFAULT_TIMEOUT)"
| "within_policy (Sleep seconds) = (1 / 10 \<le> seconds \<and> seconds \<le> 8 / 10)"

definition outside_policy :: "supertensor \<Rightarrow> st_event list" where
  "outside_policy s = filter (\<lambda>e. \<not> within_policy e) (events s)"

fun is_read_of :: "rpc \<Rightarrow> source \<Rightarrow> st_event \<Rightarrow> bool" where
  "is_read_of k src (ChainRead k' src' b seconds) = (k' = k \<and> src' = src)"
| "is_read_of k src _ = False"

fun is_shielded_read :: "st_event \<Rightarrow> bool" where
  "is_shielded_read (ShieldedRead seconds) = True"
| "is_shielded_read _ = False"

definition reads :: "(st_event \<Rightarrow> bool) \<Rightarrow> supertensor \<Rightarrow> nat" where
  "reads P s = length (filter P (events s))"

definition slow_chain :: chain where
  "slow_chain =
     \<lparr>chain_list_neurons = (\<lambda>src b k. (31, Inr demo_neurons)),
      chain_get_timestamp = (\<lambda>src b k. (31, Inr (12 * b))),
      chain_get_state = (\<lambda>src b k. (31, Inr demo_state)),
      chain_block_hash = (\<lambda>src b k. (31, Inr ''0xabc'')),
      chain_shielded_neurons = (\<lambda>k. (31, Inr demo_neurons)),
      chain_head = (\<lambda>k. Inr 105)\<rparr>"

text \<open>
  The shape of the log of one transfer task. A pass is a consult answered with a true
  flag, the transfer it allows and, in \<^verbatim>\<open>keep_up\<close>, possibly the sleep for the rest
  of the interval. A refusal is a consult with any other answer: a false flag or a
  missing key.
\<close>

fun is_refusal :: "transfer_event \<Rightarrow> bool" where
  "is_refusal (Consulted a) = (a \<noteq> Inr True)"
| "is_refusal _ = False"

inductive passes :: "transfer_event list \<Rightarrow> bool" where
  no_pass: "passes []"
| pass: "passes evs \<Longrightarrow> passes (evs @ [Consulted (Inr True), Transferred pages semaphore t])"
| pass_and_sleep:
    "passes evs \<Longrightarrow>
     passes (evs @ [Consulted (Inr True), Transferred pages semaphore t, Slept seconds])"

text \<open>
  A task that was refused ends with the refusal, after whole passes only; a task that
  was not refused consists of whole passes.
\<close>

definition task_log :: "bool \<Rightarrow> transfer_event list \<Rightarrow> bool" where
  "task_log refused evs =
     (if refused then (\<exists>evs0 a. evs = evs0 @ [Consulted a] \<and> a \<noteq> Inr True \<and> passes evs0)
      else passes evs)"

text \<open>
  A daemon run of two rounds over two active pages, with the current page 10 and the
  cutoff on page 5. In the first round the catch-up over the older pages reads a
  false flag before its second page; in the second round the key is missing.
\<close>

definition demo_keep_up :: keep_up_env where
  "demo_keep_up =
     \<lparr>hot_enabled = (\<lambda>k. Inr True), page_now = (\<lambda>k. 10), interval = (\<lambda>k. 5),
      elapsed = (\<lambda>k. if k = 0 then 1 else 7)\<rparr>"

definition demo_rounds :: "nat \<Rightarrow> round_env" where
  "demo_rounds r =
     \<lparr>sweep_enabled = (\<lambda>k. if r = 0 then Inr True else Inl KeyError),
      cold_enabled = (\<lambda>k. if k = 0 then Inr True else Inr False),
      hot_env = demo_keep_up, round_current_page = 10\<rparr>"

definition demo_first_round :: round_log where
  "demo_first_round =
     \<lparr>sweep = [Consulted (Inr True), Transferred [10] 50 3,
               Consulted (Inr True), Transferred [9] 50 3],
      cold = [Consulted (Inr True), Transferred [8] 10 3, Consulted (Inr False)],
      hot = [Consulted (Inr True), Transferred [10, 9] 50 1, Slept 4,
             Consulted (Inr True), Transferred [10, 9] 50 1]\<rparr>"

section \<open>Theorems\<close>

subsection \<open>Chain oracle: \<^verbatim>\<open>list_validators\<close>\<close>

lemma build_validators_eq:
  "build_validators ts ns =
     Inr (map (\<lambda>n. \<lparr>vm_uid = uid n, vm_hotkey = hotkey n,
                     effective_stake =
                       (if uid n < length ts then (case ts ! uid n of None \<Rightarrow> 0 | Some v \<Rightarrow> v)
                        else 0)\<rparr>) ns)"
  by (induction ns) (auto simp: effective_stake_of_def py_getitem_def split: option.splits)

lemma list_validators_eq:
  assumes "self_list_neurons block_number s = (Inr neurons, s1)"
      and "self_get_subnet_state block_number s1 = (Inr state, s2)"
  shows "list_validators self_list_neurons self_get_subnet_state block_number s =
           (Inr (map (\<lambda>n. \<lparr>vm_uid = uid n, vm_hotkey = hotkey n,
                           effective_stake =
                             (let ts = (case total_stake state of None \<Rightarrow> [] | Some l \<Rightarrow> l)
                              in if uid n < length ts
                                 then (case ts ! uid n of None \<Rightarrow> 0 | Some v \<Rightarrow> v)
                                 else 0)\<rparr>)
                    (filter (\<lambda>n. 1000 \<le> stake n) neurons)), s2)"
  using assms by (simp add: list_validators_def build_validators_eq Let_def)

text \<open>
  Claim C9. When the two reads of \<^verbatim>\<open>list_validators\<close> succeed with the neurons and
  the subnet state of the block, the method returns, in the order of the neurons,
  one validator for each neuron whose stake is at least 1000 and for no other; the
  validator has the neuron's uid and hotkey, and its effective stake is the entry of
  \<^verbatim>\<open>total_stake\<close> at the uid when the uid is within the list and the entry is not
  \<^verbatim>\<open>None\<close>, and 0 otherwise (also when the state has no \<^verbatim>\<open>total_stake\<close>). The result is
  a value: the subscript never raises \<^verbatim>\<open>IndexError\<close>.
\<close>

theorem list_validators_returns_staked_neurons:
  assumes "SuperTensor_list_neurons ch block_number s = (Inr neurons, s1)"
      and "SuperTensor_get_subnet_state ch block_number s1 = (Inr state, s2)"
  shows "SuperTensor_list_validators ch block_number s =
           (Inr (map (\<lambda>n. \<lparr>vm_uid = uid n, vm_hotkey = hotkey n,
                           effective_stake =
                             (let ts = (case total_stake state of None \<Rightarrow> [] | Some l \<Rightarrow> l)
                              in if uid n < length ts
                                 then (case ts ! uid n of None \<Rightarrow> 0 | Some v \<Rightarrow> v)
                                 else 0)\<rparr>)
                    (filter (\<lambda>n. 1000 \<le> stake n) neurons)), s2)"
  unfolding SuperTensor_list_validators_def using assms by (rule list_validators_eq)

lemma demo_chain_reads:
  "\<exists>s1 s2. SuperTensor_list_neurons demo_chain 7 (new_precaching False False) = (Inr demo_neurons, s1)
     \<and> SuperTensor_get_subnet_state demo_chain 7 s1 = (Inr demo_state, s2)"
  by (simp add: SuperTensor_list_neurons_def list_neurons_def RETRY_ON_TIMEOUT_def
      SuperTensor__list_neurons_def SuperTensor__real_list_neurons_def archive_fallback_def
      make_sync_def SuperTensor_get_subnet_state_def SuperTensor__get_subnet_state_def
      demo_chain_def new_precaching_def DEFAULT_TIMEOUT_def deque_append_def demo_neurons_def)

theorem list_validators_returns_staked_neurons_witness:
  "fst (SuperTensor_list_validators demo_chain 7 (new_precaching False False)) =
     Inr [\<lparr>vm_uid = 0, vm_hotkey = ''v0'', effective_stake = 2500\<rparr>,
          \<lparr>vm_uid = 5, vm_hotkey = ''v5'', effective_stake = 0\<rparr>]"
proof -
  obtain s1 s2
    where a: "SuperTensor_list_neurons demo_chain 7 (new_precaching False False) = (Inr demo_neurons, s1)"
      and b: "SuperTensor_get_subnet_state demo_chain 7 s1 = (Inr demo_state, s2)"
    using demo_chain_reads by blast
  show ?thesis
    using list_validators_returns_staked_neurons[OF a b]
    by (simp add: demo_neurons_def demo_state_def)
qed

subsection \<open>Receipt transfer: the kill switch and once mode\<close>

text \<open>
  Claim C10. When the lookup of \<^verbatim>\<open>DYNAMIC_RECEIPT_TRANSFER_ENABLED\<close> raises
  \<^verbatim>\<open>KeyError\<close>, \<^verbatim>\<open>_throw_if_disabled\<close> raises \<^verbatim>\<open>TransferIsDisabled\<close>, exactly as it does
  when the value is false.
\<close>

theorem throw_if_disabled_missing_key:
  "throw_if_disabled (Inl KeyError) = Inl TransferIsDisabled
   \<and> throw_if_disabled (Inl KeyError) = throw_if_disabled (Inr False)"
  by (simp add: throw_if_disabled_def)

lemma throw_if_disabled_Inr: "throw_if_disabled a = Inr u \<longleftrightarrow> a = Inr True"
  by (auto simp: throw_if_disabled_def split: sum.splits bool.splits config_error.splits)

lemma throw_if_disabled_Inl: "throw_if_disabled a = Inl e \<longleftrightarrow> a \<noteq> Inr True"
  by (cases e) (auto simp: throw_if_disabled_def split: sum.splits bool.splits config_error.splits)

lemma catch_up_all_enabled:
  "\<forall>k<length pages. enabled (consults c + k) = Inr True \<Longrightarrow>
   fst (catch_up enabled pages semaphore c) = Inr ()
   \<and> filter is_transfer (tlog (snd (catch_up enabled pages semaphore c)))
       = filter is_transfer (tlog c) @ map (\<lambda>p. Transferred [p] semaphore 3) pages"
proof (induction pages arbitrary: c)
  case Nil
  then show ?case by simp
next
  case (Cons page pages)
  have h0: "enabled (consults c) = Inr True" using Cons.prems by force
  let ?c1 = "transfer [page] semaphore 3 (snd (consult enabled c))"
  have c1: "consults ?c1 = Suc (consults c)" by (simp add: transfer_def consult_def Let_def)
  have "\<forall>k<length pages. enabled (consults ?c1 + k) = Inr True"
    using Cons.prems c1 by force
  from Cons.IH[OF this] show ?case
    using h0 by (simp add: consult_def Let_def throw_if_disabled_def transfer_def)
qed

lemma catch_up_first_refusal:
  "i < length pages \<Longrightarrow> \<forall>k<i. enabled (consults c + k) = Inr True \<Longrightarrow>
   enabled (consults c + i) \<noteq> Inr True \<Longrightarrow>
   fst (catch_up enabled pages semaphore c) = Inl TransferIsDisabled
   \<and> filter is_transfer (tlog (snd (catch_up enabled pages semaphore c)))
       = filter is_transfer (tlog c) @ map (\<lambda>p. Transferred [p] semaphore 3) (take i pages)"
proof (induction pages arbitrary: c i)
  case Nil
  then show ?case by simp
next
  case (Cons page pages)
  show ?case
  proof (cases i)
    case 0
    then have "enabled (consults c) \<noteq> Inr True" using Cons.prems by simp
    then obtain e where "throw_if_disabled (enabled (consults c)) = Inl e"
      by (metis throw_if_disabled_Inl)
    then show ?thesis using 0 by (cases e) (simp add: consult_def Let_def)
  next
    case (Suc j)
    have h0: "enabled (consults c) = Inr True" using Cons.prems Suc by force
    let ?c1 = "transfer [page] semaphore 3 (snd (consult enabled c))"
    have c1: "consults ?c1 = Suc (consults c)" by (simp add: transfer_def consult_def Let_def)
    have a: "j < length pages" using Cons.prems Suc by simp
    have b: "\<forall>k<j. enabled (consults ?c1 + k) = Inr True"
      using Cons.prems Suc c1 by force
    have c: "enabled (consults ?c1 + j) \<noteq> Inr True" using Cons.prems Suc c1 by simp
    from Cons.IH[OF a b c] show ?thesis
      using h0 Suc by (simp add: consult_def Let_def throw_if_disabled_def transfer_def)
  qed
qed

text \<open>
  Claim C8, as stated, fails: once mode consults the kill switch before every page
  too. With pages of one hour, the time 18000 (cutoff page 0), current page 5 and
  the switch off, the run transfers nothing, not the pages 5 down to 0.
\<close>

theorem run_once_disabled_counterexample:
  "hour_pages (18000 - 5 * 3600) = 0
   \<and> filter is_transfer (tlog (snd (handle_once hour_pages 5 (\<lambda>k. Inr False) 18000)))
       \<noteq> map (\<lambda>p. Transferred [p] 50 3) (rev [0..5])"
  by (simp add: handle_once_def run_once_def hour_pages_def new_coroutine_def upto.simps
      consult_def throw_if_disabled_def Let_def)

text \<open>
  Claim C8, amended. In once mode the pages are those from the page of
  \<open>now - 5 hours\<close> to the current page, newest first. The run consults the kill switch
  before each page. While every answer is true it transfers the pages one per call
  (semaphore of 50, request timeout 3 s), and when all answers are true it transfers
  exactly all of them and returns. At the first answer that is false or missing it
  raises \<^verbatim>\<open>TransferIsDisabled\<close>, having transferred exactly the pages before that one.
\<close>

theorem run_once_pages_while_enabled:
  "((\<forall>k<length (rev [current_page_at (now - 5 * 3600)..current_page]). enabled k = Inr True) \<longrightarrow>
      fst (handle_once current_page_at current_page enabled now) = Inr ()
      \<and> filter is_transfer (tlog (snd (handle_once current_page_at current_page enabled now)))
          = map (\<lambda>p. Transferred [p] 50 3) (rev [current_page_at (now - 5 * 3600)..current_page]))
   \<and> (\<forall>i. i < length (rev [current_page_at (now - 5 * 3600)..current_page])
          \<and> (\<forall>k<i. enabled k = Inr True) \<and> enabled i \<noteq> Inr True \<longrightarrow>
      fst (handle_once current_page_at current_page enabled now) = Inl TransferIsDisabled
      \<and> filter is_transfer (tlog (snd (handle_once current_page_at current_page enabled now)))
          = map (\<lambda>p. Transferred [p] 50 3)
              (take i (rev [current_page_at (now - 5 * 3600)..current_page])))"
proof (intro conjI impI allI)
  assume a: "\<forall>k<length (rev [current_page_at (now - 5 * 3600)..current_page]). enabled k = Inr True"
  have "\<forall>k<length (rev [current_page_at (now - 5 * 3600)..current_page]).
          enabled (consults new_coroutine + k) = Inr True"
    using a by (simp add: new_coroutine_def)
  from catch_up_all_enabled[OF this, of 50]
  show "fst (handle_once current_page_at current_page enabled now) = Inr ()"
    and "filter is_transfer (tlog (snd (handle_once current_page_at current_page enabled now)))
          = map (\<lambda>p. Transferred [p] 50 3) (rev [current_page_at (now - 5 * 3600)..current_page])"
    by (simp_all add: handle_once_def run_once_def Let_def new_coroutine_def)
next
  fix i
  assume a: "i < length (rev [current_page_at (now - 5 * 3600)..current_page])
          \<and> (\<forall>k<i. enabled k = Inr True) \<and> enabled i \<noteq> Inr True"
  then have 1: "i < length (rev [current_page_at (now - 5 * 3600)..current_page])"
    and 2: "\<forall>k<i. enabled (consults new_coroutine + k) = Inr True"
    and 3: "enabled (consults new_coroutine + i) \<noteq> Inr True"
    by (simp_all add: new_coroutine_def)
  from catch_up_first_refusal[OF 1 2 3, of 50]
  show "fst (handle_once current_page_at current_page enabled now) = Inl TransferIsDisabled"
    and "filter is_transfer (tlog (snd (handle_once current_page_at current_page enabled now)))
          = map (\<lambda>p. Transferred [p] 50 3)
              (take i (rev [current_page_at (now - 5 * 3600)..current_page]))"
    by (simp_all add: handle_once_def run_once_def Let_def new_coroutine_def)
qed

theorem run_once_pages_while_enabled_witness:
  "(fst (handle_once hour_pages 2 (\<lambda>k. Inr True) 18000) = Inr ()
    \<and> filter is_transfer (tlog (snd (handle_once hour_pages 2 (\<lambda>k. Inr True) 18000)))
        = [Transferred [2] 50 3, Transferred [1] 50 3, Transferred [0] 50 3])
   \<and> (fst (handle_once hour_pages 2 (\<lambda>k. if k < 2 then Inr True else Inl KeyError) 18000)
        = Inl TransferIsDisabled
    \<and> filter is_transfer
        (tlog (snd (handle_once hour_pages 2 (\<lambda>k. if k < 2 then Inr True else Inl KeyError) 18000)))
        = [Transferred [2] 50 3, Transferred [1] 50 3])"
proof -
  have pages: "rev [hour_pages (18000 - 5 * 3600)..2] = [2, 1, 0]"
    by (simp add: hour_pages_def upto.simps)
  note all_on = run_once_pages_while_enabled[of hour_pages 18000 2 "\<lambda>k. Inr True", THEN conjunct1]
  note off_at_2 = run_once_pages_while_enabled[of hour_pages 18000 2
      "\<lambda>k. if k < 2 then Inr True else Inl KeyError", THEN conjunct2, THEN spec[where x = "2::nat"]]
  show ?thesis
    using all_on off_at_2 unfolding pages by simp
qed

subsection \<open>Output upload: refusals of \<^verbatim>\<open>zipped_directory\<close>\<close>

text \<open>
  Claim C7. \<^verbatim>\<open>MAX_NUMBER_OF_FILES\<close> is 1000 and the default size cap is 2147483648.
  When more than \<^verbatim>\<open>MAX_NUMBER_OF_FILES\<close> entries remain after the excluded paths are
  removed, \<^verbatim>\<open>zipped_directory\<close> raises \<^verbatim>\<open>OutputUploadFailed\<close>; when the entries are
  few enough to be zipped and the zip is larger than \<^verbatim>\<open>max_size_bytes\<close>, it raises
  \<^verbatim>\<open>OutputUploadFailed\<close>. In both cases the body of the caller's \<^verbatim>\<open>with\<close> block does
  not run: whatever the body is, the state it would change is unchanged, so no
  upload is attempted.
\<close>

theorem zipped_directory_refuses:
  "MAX_NUMBER_OF_FILES = 1000 \<and> DEFAULT_MAX_SIZE_BYTES = 2147483648
   \<and> (MAX_NUMBER_OF_FILES < length (filtered_files files exclude) \<longrightarrow>
        zipped_directory zip_size files exclude max_size_bytes body s
          = (Inl (OutputUploadFailed ''Attempting to upload too many files''), s))
   \<and> (length (filtered_files files exclude) \<le> MAX_NUMBER_OF_FILES
        \<and> max_size_bytes < int (zip_size (filtered_files files exclude)) \<longrightarrow>
        zipped_directory zip_size files exclude max_size_bytes body s
          = (Inl (OutputUploadFailed ''Attempting to upload too large file''), s))"
  by (simp add: zipped_directory_def Let_def MAX_NUMBER_OF_FILES_def DEFAULT_MAX_SIZE_BYTES_def)

lemma filtered_files_None: "filtered_files files None = files"
  by (simp add: filtered_files_def)

theorem zipped_directory_refuses_witness:
  "MAX_NUMBER_OF_FILES < length (filtered_files long_listing None)
   \<and> ZipAndHTTPPostOutputUploader_upload (\<lambda>fs. 10) (\<lambda>fp name size log. (Inr (), log @ [name]))
        long_listing []
       = (Inl (OutputUploadFailed ''Attempting to upload too many files''), [])
   \<and> length (filtered_files [''out.txt'', ''tmp/x''] (Some [''tmp/x''])) \<le> MAX_NUMBER_OF_FILES
   \<and> DEFAULT_MAX_SIZE_BYTES
        < int ((\<lambda>fs. 3000000000) (filtered_files [''out.txt'', ''tmp/x''] (Some [''tmp/x''])))
   \<and> zipped_directory (\<lambda>fs. 3000000000) [''out.txt'', ''tmp/x''] (Some [''tmp/x''])
        DEFAULT_MAX_SIZE_BYTES (\<lambda>(size, fp) log. (Inr (), log @ [''output.zip''])) []
       = (Inl (OutputUploadFailed ''Attempting to upload too large file''), [])"
proof -
  have a: "MAX_NUMBER_OF_FILES < length (filtered_files long_listing None)"
    by (simp add: filtered_files_None long_listing_def MAX_NUMBER_OF_FILES_def)
  have b: "length (filtered_files [''out.txt'', ''tmp/x''] (Some [''tmp/x''])) \<le> MAX_NUMBER_OF_FILES
     \<and> DEFAULT_MAX_SIZE_BYTES
          < int ((\<lambda>fs. 3000000000) (filtered_files [''out.txt'', ''tmp/x''] (Some [''tmp/x''])))"
    by (simp add: filtered_files_def MAX_NUMBER_OF_FILES_def DEFAULT_MAX_SIZE_BYTES_def)
  show ?thesis
    using a b
      zipped_directory_refuses[of long_listing None "\<lambda>fs. 10" DEFAULT_MAX_SIZE_BYTES
        "\<lambda>(file_size, fp). (\<lambda>fp name size log. (Inr (), log @ [name])) fp ''output.zip'' file_size"
        "[]"]
      zipped_directory_refuses[of "[''out.txt'', ''tmp/x'']" "Some [''tmp/x'']"
        "\<lambda>fs. 3000000000" DEFAULT_MAX_SIZE_BYTES
        "\<lambda>(size, fp) log. (Inr (), log @ [''output.zip''])" "[]"]
    by (simp add: ZipAndHTTPPostOutputUploader_upload_def)
qed

subsection \<open>Prefetch cache: the producer\<close>

lemma get_current_block_frame:
  "get_current_block ch s = (r, s1) \<Longrightarrow>
     task_queue s1 = task_queue s \<and> highest_block_submitted s1 = highest_block_submitted s
     \<and> highest_block_requested s1 = highest_block_requested s"
  by (auto simp: get_current_block_def Let_def split: sum.splits st_error.splits)

lemma sleep_frame:
  "task_queue (sleep d s) = task_queue s" "highest_block_submitted (sleep d s) = highest_block_submitted s"
  "highest_block_requested (sleep d s) = highest_block_requested s"
  by (simp_all add: sleep_def)

lemma produce_iteration_cases:
  assumes "produce_iteration ch s = (ctl, s')"
  shows "(task_queue s' = task_queue s \<and> highest_block_submitted s' = highest_block_submitted s
          \<and> highest_block_requested s' = highest_block_requested s)
       \<or> (\<exists>submitted requested current_block.
             highest_block_submitted s = Some submitted
           \<and> highest_block_requested s = Some requested
           \<and> fst (get_current_block ch s) = Inr current_block
           \<and> submitted - requested < CACHE_AHEAD
           \<and> submitted < current_block
           \<and> highest_block_submitted s' = Some (submitted + 1)
           \<and> highest_block_requested s' = Some requested
           \<and> task_queue s' = task_queue s @ tasks_for (submitted + 1)
           \<and> submitted + 1 \<le> current_block)"
proof (cases "closing s")
  case True
  then show ?thesis using assms by (simp add: produce_iteration_def)
next
  case False
  obtain r s1 where g: "get_current_block ch s = (r, s1)" by (cases "get_current_block ch s")
  note fr = get_current_block_frame[OF g]
  show ?thesis
  proof (cases r)
    case (Inl e)
    then have "s' = sleep 1 s1" using assms False g by (simp add: produce_iteration_def)
    then show ?thesis using fr by (simp add: sleep_frame)
  next
    case (Inr current_block)
    show ?thesis
    proof (cases "highest_block_requested s1")
      case None
      then have "s' = sleep (1 / 10) s1"
        using assms False g Inr by (simp add: produce_iteration_def)
      then show ?thesis using fr by (simp add: sleep_frame)
    next
      case (Some requested)
      note req = this
      show ?thesis
      proof (cases "highest_block_submitted s1")
        case None
        then have "s' = sleep (1 / 10) s1"
          using assms False g Inr req by (simp add: produce_iteration_def)
        then show ?thesis using fr by (simp add: sleep_frame)
      next
        case (Some submitted)
        show ?thesis
        proof (cases "CACHE_AHEAD \<le> submitted - requested \<or> current_block \<le> submitted")
          case True
          then have "s' = sleep (1 / 10) s1"
            using assms False g Inr req Some by (auto simp: produce_iteration_def split: if_splits)
          then show ?thesis using fr by (simp add: sleep_frame)
        next
          case gate: False
          then have s': "s' = s1\<lparr>task_queue := task_queue s1 @ tasks_for (submitted + 1),
                                 highest_block_submitted := Some (submitted + 1)\<rparr>"
            using assms False g Inr req Some by (simp add: produce_iteration_def Let_def)
          have "highest_block_submitted s = Some submitted
           \<and> highest_block_requested s = Some requested
           \<and> fst (get_current_block ch s) = Inr current_block
           \<and> submitted - requested < CACHE_AHEAD
           \<and> submitted < current_block
           \<and> highest_block_submitted s' = Some (submitted + 1)
           \<and> highest_block_requested s' = Some requested
           \<and> task_queue s' = task_queue s @ tasks_for (submitted + 1)
           \<and> submitted + 1 \<le> current_block"
            using s' fr g Inr req Some gate by simp
          then show ?thesis by blast
        qed
      qed
    qed
  qed
qed

lemma upto_snoc: "a \<le> b + 1 \<Longrightarrow> [a..b + 1] = [a..b] @ [b + 1]"
  by (simp add: upto_rec2)

lemma queue_inv_produce:
  assumes "queue_inv s"
  shows "queue_inv (snd (produce_iteration ch s))"
proof -
  obtain ctl s' where p: "produce_iteration ch s = (ctl, s')" by (cases "produce_iteration ch s")
  from produce_iteration_cases[OF p] show ?thesis
  proof
    assume "task_queue s' = task_queue s \<and> highest_block_submitted s' = highest_block_submitted s
          \<and> highest_block_requested s' = highest_block_requested s"
    then show ?thesis using assms p by (auto simp: queue_inv_def split: option.splits)
  next
    assume "\<exists>submitted requested current_block.
             highest_block_submitted s = Some submitted
           \<and> highest_block_requested s = Some requested
           \<and> fst (get_current_block ch s) = Inr current_block
           \<and> submitted - requested < CACHE_AHEAD
           \<and> submitted < current_block
           \<and> highest_block_submitted s' = Some (submitted + 1)
           \<and> highest_block_requested s' = Some requested
           \<and> task_queue s' = task_queue s @ tasks_for (submitted + 1)
           \<and> submitted + 1 \<le> current_block"
    then obtain h where h: "highest_block_submitted s = Some h"
      "highest_block_submitted s' = Some (h + 1)"
      "task_queue s' = task_queue s @ tasks_for (h + 1)" by blast
    from assms h obtain n where n: "task_queue s = concat (map tasks_for [h - int n + 1..h])"
      by (auto simp: queue_inv_def)
    have "[h + 1 - int (Suc n) + 1..h + 1] = [h - int n + 1..h] @ [h + 1]"
      using upto_snoc[of "h - int n + 1" h] by simp
    then have "task_queue s' = concat (map tasks_for [h + 1 - int (Suc n) + 1..h + 1])"
      using h n by simp
    then show ?thesis using p h unfolding queue_inv_def by (auto simp del: of_nat_Suc)
  qed
qed

lemma queue_inv_request:
  assumes "queue_inv s"
  shows "queue_inv (set_starting_block b s)"
proof (cases "highest_block_submitted s")
  case None
  then have q: "task_queue s = []" using assms by (simp add: queue_inv_def)
  have hs: "highest_block_submitted (set_starting_block b s) = Some (b - 1)"
    using None by (simp add: set_starting_block_def Let_def)
  have tq: "task_queue (set_starting_block b s) = concat (map tasks_for [b - 1 - int 0 + 1..b - 1])"
    using None q by (simp add: set_starting_block_def Let_def)
  have "\<exists>n. task_queue (set_starting_block b s) = concat (map tasks_for [b - 1 - int n + 1..b - 1])"
    by (rule exI[of _ 0]) (rule tq)
  then show ?thesis unfolding queue_inv_def by (simp add: hs)
next
  case (Some h)
  then show ?thesis using assms by (simp add: queue_inv_def set_starting_block_def Let_def)
qed

lemma queue_inv_run: "queue_inv s \<Longrightarrow> queue_inv (run_actions ch as s)"
proof (induction as arbitrary: s)
  case Nil
  then show ?case by simp
next
  case (Cons a as)
  have "queue_inv (perform ch a s)"
    using Cons.prems by (cases a) (simp_all add: queue_inv_produce queue_inv_request)
  then show ?case using Cons.IH by simp
qed

lemma queue_inv_new: "queue_inv (new_precaching archive throw)"
  by (simp add: queue_inv_def new_precaching_def)


text \<open>
  Claim C4. \<^verbatim>\<open>CACHE_AHEAD\<close> is 10. In every run of producer passes and consumer
  requests from a fresh object the queue holds the tasks of consecutive block
  numbers, ending at \<open>highest_block_submitted\<close>. A pass of the producer either leaves
  the queue and \<open>highest_block_submitted\<close> as they are, or it finds
  \<open>highest_block_submitted - highest_block_requested < CACHE_AHEAD\<close> and
  \<open>highest_block_submitted < current_block\<close>, puts the five tasks of the block
  \<open>highest_block_submitted + 1\<close> and advances \<open>highest_block_submitted\<close> to it; that
  block is not greater than the current block. A consumer's \<^verbatim>\<open>set_starting_block\<close>
  puts no task and changes \<open>highest_block_submitted\<close> only while it is \<^verbatim>\<open>None\<close>.
\<close>

theorem producer_submits_consecutive_blocks_within_window:
  "CACHE_AHEAD = 10
   \<and> (case highest_block_submitted (run_actions ch as (new_precaching archive throw)) of
         None \<Rightarrow> task_queue (run_actions ch as (new_precaching archive throw)) = []
       | Some h \<Rightarrow>
           (\<exists>n. task_queue (run_actions ch as (new_precaching archive throw))
                  = concat (map tasks_for [h - int n + 1..h])))
   \<and> (produce_iteration ch s = (ctl, s') \<longrightarrow>
        (task_queue s' = task_queue s \<and> highest_block_submitted s' = highest_block_submitted s)
        \<or> (\<exists>submitted requested current_block.
              highest_block_submitted s = Some submitted
            \<and> highest_block_requested s = Some requested
            \<and> fst (get_current_block ch s) = Inr current_block
            \<and> submitted - requested < CACHE_AHEAD
            \<and> submitted < current_block
            \<and> highest_block_submitted s' = Some (submitted + 1)
            \<and> task_queue s' = task_queue s @ tasks_for (submitted + 1)
            \<and> submitted + 1 \<le> current_block))
   \<and> (highest_block_submitted s \<noteq> None \<longrightarrow>
        highest_block_submitted (set_starting_block b s) = highest_block_submitted s)
   \<and> task_queue (set_starting_block b s) = task_queue s"
proof (intro conjI impI)
  show "CACHE_AHEAD = 10" by (simp add: CACHE_AHEAD_def)
  show "case highest_block_submitted (run_actions ch as (new_precaching archive throw)) of
         None \<Rightarrow> task_queue (run_actions ch as (new_precaching archive throw)) = []
       | Some h \<Rightarrow>
           (\<exists>n. task_queue (run_actions ch as (new_precaching archive throw))
                  = concat (map tasks_for [h - int n + 1..h]))"
    using queue_inv_run[OF queue_inv_new, of ch as archive throw] by (simp add: queue_inv_def)
  show "task_queue (set_starting_block b s) = task_queue s"
    by (simp add: set_starting_block_def Let_def)
next
  assume "highest_block_submitted s \<noteq> None"
  then show "highest_block_submitted (set_starting_block b s) = highest_block_submitted s"
    by (simp add: set_starting_block_def Let_def)
next
  assume "produce_iteration ch s = (ctl, s')"
  from produce_iteration_cases[OF this]
  show "(task_queue s' = task_queue s \<and> highest_block_submitted s' = highest_block_submitted s)
        \<or> (\<exists>submitted requested current_block.
              highest_block_submitted s = Some submitted
            \<and> highest_block_requested s = Some requested
            \<and> fst (get_current_block ch s) = Inr current_block
            \<and> submitted - requested < CACHE_AHEAD
            \<and> submitted < current_block
            \<and> highest_block_submitted s' = Some (submitted + 1)
            \<and> task_queue s' = task_queue s @ tasks_for (submitted + 1)
            \<and> submitted + 1 \<le> current_block)"
    by blast
qed

lemma demo_first_pass:
  "highest_block_submitted (set_starting_block 90 (new_precaching False False)) = Some 89
   \<and> task_queue (set_starting_block 90 (new_precaching False False)) = []
   \<and> fst (produce_iteration demo_chain (set_starting_block 90 (new_precaching False False))) = Continue
   \<and> highest_block_submitted
        (snd (produce_iteration demo_chain (set_starting_block 90 (new_precaching False False))))
       \<noteq> Some 89"
  by (simp add: set_starting_block_def new_precaching_def produce_iteration_def
      get_current_block_def demo_chain_def CACHE_AHEAD_def Let_def)

theorem producer_submits_consecutive_blocks_within_window_witness:
  "\<exists>s'. produce_iteration demo_chain (set_starting_block 90 (new_precaching False False)) = (Continue, s')
        \<and> highest_block_submitted s' = Some 90
        \<and> task_queue s' = tasks_for 90"
proof -
  let ?s = "set_starting_block 90 (new_precaching False False)"
  obtain s' where p: "produce_iteration demo_chain ?s = (Continue, s')"
    using demo_first_pass by (cases "produce_iteration demo_chain ?s") auto
  have changed: "highest_block_submitted s' \<noteq> Some 89"
    using demo_first_pass p by simp
  note step = producer_submits_consecutive_blocks_within_window[of demo_chain "[]" False False ?s
      Continue s' 0, THEN conjunct2, THEN conjunct2, THEN conjunct1, THEN mp, OF p]
  have start: "highest_block_submitted ?s = Some 89" "task_queue ?s = []"
    using demo_first_pass by simp_all
  from step have "highest_block_submitted s' = Some 90 \<and> task_queue s' = tasks_for 90"
  proof (elim disjE exE conjE)
    assume "highest_block_submitted s' = highest_block_submitted ?s"
    then show ?thesis using changed start by simp
  next
    fix submitted requested current_block
    assume "highest_block_submitted ?s = Some submitted"
      and "highest_block_submitted s' = Some (submitted + 1)"
      and "task_queue s' = task_queue ?s @ tasks_for (submitted + 1)"
    then show ?thesis using start by simp
  qed
  then show ?thesis using p by (intro exI[of _ s']) simp
qed

subsection \<open>Organic job driver\<close>

lemma conclude_notified:
  "notified (conclude env st cmt subtype success ust mt d)
     = notified d @ [status_update_from_job ((job d)\<lparr>status := st, comment := cmt\<rparr>) ust mt]"
  by (simp add: conclude_def save_event_def Let_def)

lemma conclude_job:
  "job (conclude env st cmt subtype success ust mt d) = (job d)\<lparr>status := st, comment := cmt\<rparr>"
  by (simp add: conclude_def save_event_def Let_def)

lemma accepted_not_terminal:
  "filter is_terminal (map (\<lambda>mt. status_update_from_job j Accepted (Some mt)) ms) = []"
  by (induction ms) (simp_all add: is_terminal_def status_update_from_job_def)

lemma drive_notified:
  assumes "\<And>exc. run_outcome res = Inl exc \<Longrightarrow> reason exc \<noteq> VOLUMES_TIMED_OUT"
  shows "\<exists>u. notified (snd (drive_organic_job env res d))
          = notified d
            @ map (\<lambda>mt. status_update_from_job (job d) Accepted (Some mt)) (accept_notifications res)
            @ [u]
      \<and> update_status u
          = (case run_outcome res of
               Inr r \<Rightarrow> Completed
             | Inl exc \<Rightarrow> if reason exc = JOB_DECLINED then Rejected else Failed)
      \<and> update_uuid u = job_uuid (job d)
      \<and> update_comment u = comment (job (snd (drive_organic_job env res d)))"
proof (cases "run_outcome res")
  case (Inr r)
  then show ?thesis
    by (cases r)
       (simp add: drive_organic_job_def Let_def conclude_notified conclude_job status_update_from_job_def)
next
  case (Inl exc)
  show ?thesis
  proof (cases "reason exc")
    case JOB_DECLINED
    then show ?thesis using Inl
      by (simp add: drive_organic_job_def Let_def conclude_notified conclude_job status_update_from_job_def
          split: option.splits miner_message.splits decline_reason.splits)
  next
    case JOB_FAILED
    then show ?thesis using Inl
      by (simp add: drive_organic_job_def Let_def conclude_notified conclude_job status_update_from_job_def
          split: option.splits miner_message.splits)
  next
    case VOLUMES_TIMED_OUT
    then show ?thesis using assms[OF Inl] by simp
  qed (use Inl in \<open>simp_all add: drive_organic_job_def Let_def conclude_notified conclude_job
         status_update_from_job_def\<close>)
qed

lemma drive_returns:
  assumes "\<And>exc. run_outcome res = Inl exc \<Longrightarrow> reason exc \<noteq> VOLUMES_TIMED_OUT"
  shows "fst (drive_organic_job env res d) = Inr (\<exists>r. run_outcome res = Inr r)"
proof (cases "run_outcome res")
  case (Inr r)
  then show ?thesis by (cases r) (simp add: drive_organic_job_def Let_def)
next
  case (Inl exc)
  then show ?thesis using assms[OF Inl]
    by (cases "reason exc") (simp_all add: drive_organic_job_def Let_def)
qed

text \<open>
  The reasons with a branch. When \<^verbatim>\<open>run_organic_job\<close> returned, or raised an
  \<^verbatim>\<open>OrganicJobError\<close> with one of the eight reasons that \<^verbatim>\<open>drive_organic_job\<close> compares
  with, the driver passes to \<^verbatim>\<open>notify_callback\<close> the \<open>accepted\<close> updates of the run
  followed by exactly one more update, the only terminal one among them: \<open>completed\<close>
  when the run returned, \<open>rejected\<close> for \<^verbatim>\<open>JOB_DECLINED\<close>, \<open>failed\<close> for the other seven.
  The function returns \<^verbatim>\<open>True\<close> exactly when that update is \<open>completed\<close>.
\<close>

lemma drive_organic_job_handled_reasons:
  assumes "\<And>exc. run_outcome res = Inl exc \<Longrightarrow> reason exc \<noteq> VOLUMES_TIMED_OUT"
  shows "\<exists>u. notified (snd (drive_organic_job env res d))
          = notified d
            @ map (\<lambda>mt. status_update_from_job (job d) Accepted (Some mt)) (accept_notifications res)
            @ [u]
      \<and> filter is_terminal
            (map (\<lambda>mt. status_update_from_job (job d) Accepted (Some mt)) (accept_notifications res)
             @ [u]) = [u]
      \<and> update_status u
          = (case run_outcome res of
               Inr r \<Rightarrow> Completed
             | Inl exc \<Rightarrow> if reason exc = JOB_DECLINED then Rejected else Failed)
      \<and> fst (drive_organic_job env res d) = Inr (update_status u = Completed)"
proof -
  obtain u where u: "notified (snd (drive_organic_job env res d))
          = notified d
            @ map (\<lambda>mt. status_update_from_job (job d) Accepted (Some mt)) (accept_notifications res)
            @ [u]"
    and st: "update_status u
          = (case run_outcome res of
               Inr r \<Rightarrow> Completed
             | Inl exc \<Rightarrow> if reason exc = JOB_DECLINED then Rejected else Failed)"
    using drive_notified[of res env d, OF assms] by blast
  have terminal: "is_terminal u"
    using st by (simp add: is_terminal_def split: sum.splits if_splits)
  have ret: "fst (drive_organic_job env res d) = Inr (update_status u = Completed)"
    using st drive_returns[of res env d, OF assms] by (cases "run_outcome res") auto
  show ?thesis
    using u st terminal ret by (intro exI[of _ u]) (simp add: accepted_not_terminal)
qed

lemma drive_organic_job_unhandled_reason:
  assumes "run_outcome res = Inl exc" and "reason exc = VOLUMES_TIMED_OUT"
  shows "drive_organic_job env res d
         = (Inl AssertionError,
            d\<lparr>notified := notified d @
                 map (\<lambda>mt. status_update_from_job (job d) Accepted (Some mt))
                   (accept_notifications res)\<rparr>)"
  using assms by (simp add: drive_organic_job_def Let_def)

text \<open>
  Claim C2 at a failing input. The miner accepted the job, and \<^verbatim>\<open>run_organic_job\<close>
  raised \<^verbatim>\<open>OrganicJobError\<close> with the reason \<^verbatim>\<open>VOLUMES_TIMED_OUT\<close>. No branch of
  \<^verbatim>\<open>drive_organic_job\<close> compares with this reason, so the closing \<^verbatim>\<open>assert_never\<close>
  raises \<^verbatim>\<open>AssertionError\<close>: the call returns nothing, the only update passed to
  \<^verbatim>\<open>notify_callback\<close> is the \<open>accepted\<close> one, none of the updates is terminal, and the
  job is neither changed nor saved and no system event is written. The claim promises
  exactly one \<open>failed\<close> or \<open>rejected\<close> update for every failure reason.
\<close>

theorem drive_organic_job_volumes_timed_out_no_terminal_update:
  "fst (drive_organic_job demo_env volumes_timed_out (new_driver_state demo_job))
     = Inl AssertionError
   \<and> notified (snd (drive_organic_job demo_env volumes_timed_out (new_driver_state demo_job)))
       = [status_update_from_job demo_job Accepted (Some ''V0AcceptJobRequest'')]
   \<and> filter is_terminal
        (notified (snd (drive_organic_job demo_env volumes_timed_out (new_driver_state demo_job))))
       = []
   \<and> job (snd (drive_organic_job demo_env volumes_timed_out (new_driver_state demo_job)))
       = demo_job
   \<and> saved (snd (drive_organic_job demo_env volumes_timed_out (new_driver_state demo_job))) = []
   \<and> system_events (snd (drive_organic_job demo_env volumes_timed_out (new_driver_state demo_job)))
       = []"
  by (simp add: drive_organic_job_def Let_def volumes_timed_out_def new_driver_state_def
      is_terminal_def status_update_from_job_def)





subsection \<open>Prefetch cache: reads that miss\<close>

lemma retrying_Inr:
  "retrying n f s = (Inr v, s') \<Longrightarrow> \<exists>s0. f s0 = (Inr v, s')"
proof (induction n f s rule: retrying.induct)
  case (1 attempt_number f s)
  obtain r s1 where fs: "f s = (r, s1)" by (cases "f s")
  show ?case
  proof (cases r)
    case (Inr w)
    then show ?thesis using "1.prems" fs by auto
  next
    case (Inl e)
    show ?thesis
    proof (cases "retry_if_exception_type SuperTensorTimeout e \<and> \<not> stop_after_attempt 3 attempt_number")
      case True
      then have "retrying (Suc attempt_number) f
                   (sleep (wait_exponential (1 / 10) (1 / 10) (8 / 10) attempt_number) s1) = (Inr v, s')"
        using "1.prems" fs Inl by simp
      then show ?thesis using "1.IH"[OF fs[symmetric] Inl] True by blast
    next
      case False
      then show ?thesis using "1.prems" fs Inl by (auto split: if_splits)
    qed
  qed
qed

lemma retrying_hit: "f s = (Inr v, s') \<Longrightarrow> retrying n f s = (Inr v, s')"
  by simp

lemma set_starting_block_caches:
  "neuron_cache (set_starting_block b s) = neuron_cache s"
  "block_hash_cache (set_starting_block b s) = block_hash_cache s"
  "subnet_state_cache (set_starting_block b s) = subnet_state_cache s"
  "validators_cache (set_starting_block b s) = validators_cache s"
  "block_timestamp_cache (set_starting_block b s) = block_timestamp_cache s"
  "throw_on_cache_miss (set_starting_block b s) = throw_on_cache_miss s"
  "events (set_starting_block b s) = events s"
  "calls (set_starting_block b s) = calls s"
  by (simp_all add: set_starting_block_def Let_def)

lemma Precaching_get_block_hash_populates:
  assumes "Precaching_get_block_hash ch b s = (Inr v, s')"
  shows "block_hash_cache s' b = Some v
       \<and> Precaching_get_block_hash ch b s' = (Inr v, set_starting_block b s')"
proof -
  from retrying_Inr[OF assms[unfolded Precaching_get_block_hash_def RETRY_ON_TIMEOUT_def]]
  obtain s0 where body: "(let s1 = set_starting_block b s0
            in case block_hash_cache s1 b of
                 Some block_hash \<Rightarrow> (Inr block_hash, s1)
               | None \<Rightarrow>
                   if throw_on_cache_miss s1 then (Inl PrecachingSuperTensorCacheMiss, s1)
                   else (case SuperTensor_get_block_hash ch b s1 of
                           (Inl e, s2) \<Rightarrow> (Inl e, s2)
                         | (Inr block_hash, s2) \<Rightarrow>
                             (Inr block_hash,
                              s2\<lparr>block_hash_cache :=
                                    (block_hash_cache s2)(b \<mapsto> block_hash)\<rparr>))) = (Inr v, s')"
    by blast
  have c: "block_hash_cache s' b = Some v"
    using body
    by (auto simp: Let_def set_starting_block_caches split: option.splits if_splits prod.splits sum.splits)
  show ?thesis
    using c by (simp add: Precaching_get_block_hash_def RETRY_ON_TIMEOUT_def Let_def set_starting_block_caches)
qed


lemma Precaching_get_subnet_state_populates:
  assumes "Precaching_get_subnet_state ch b s = (Inr v, s')"
  shows "subnet_state_cache s' b = Some v
       \<and> Precaching_get_subnet_state ch b s' = (Inr v, set_starting_block b s')"
proof -
  from retrying_Inr[OF assms[unfolded Precaching_get_subnet_state_def RETRY_ON_TIMEOUT_def]]
  obtain s0 where body: "(let s1 = set_starting_block b s0
            in case subnet_state_cache s1 b of
                 Some state \<Rightarrow> (Inr state, s1)
               | None \<Rightarrow>
                   if throw_on_cache_miss s1 then (Inl PrecachingSuperTensorCacheMiss, s1)
                   else (case SuperTensor__get_subnet_state ch b s1 of
                           (Inl e, s2) \<Rightarrow> (Inl e, s2)
                         | (Inr state, s2) \<Rightarrow>
                             (Inr state,
                              s2\<lparr>subnet_state_cache :=
                                    (subnet_state_cache s2)(b \<mapsto> state)\<rparr>))) = (Inr v, s')"
    by blast
  have c: "subnet_state_cache s' b = Some v"
    using body
    by (auto simp: Let_def set_starting_block_caches split: option.splits if_splits prod.splits sum.splits)
  show ?thesis
    using c by (simp add: Precaching_get_subnet_state_def RETRY_ON_TIMEOUT_def Let_def set_starting_block_caches)
qed

lemma Precaching_list_neurons_populates:
  assumes "Precaching_list_neurons ch b s = (Inr v, s')"
  shows "neuron_cache s' b = Some v
       \<and> Precaching_list_neurons ch b s' = (Inr v, set_starting_block b s')"
proof -
  from retrying_Inr[OF assms[unfolded Precaching_list_neurons_def list_neurons_def RETRY_ON_TIMEOUT_def]]
  obtain s0 where body: "Precaching__list_neurons ch b s0 = (Inr v, s')"
    by blast
  have c: "neuron_cache s' b = Some v"
    using body
    by (auto simp: Precaching__list_neurons_def Let_def set_starting_block_caches
        split: option.splits if_splits prod.splits sum.splits)
  show ?thesis
    using c by (simp add: Precaching_list_neurons_def list_neurons_def Precaching__list_neurons_def
        RETRY_ON_TIMEOUT_def Let_def set_starting_block_caches)
qed

lemma Precaching_list_validators_populates:
  assumes "Precaching_list_validators ch b s = (Inr v, s')"
  shows "validators_cache s' b = Some v
       \<and> Precaching_list_validators ch b s' = (Inr v, set_starting_block b s')"
proof -
  have c: "validators_cache s' b = Some v"
    using assms
    by (auto simp: Precaching_list_validators_def Let_def set_starting_block_caches
        split: option.splits if_splits prod.splits sum.splits)
  show ?thesis
    using c by (simp add: Precaching_list_validators_def Let_def set_starting_block_caches)
qed

lemma retrying_keeps:
  "(\<And>s. g (snd (f s)) = g s) \<Longrightarrow> (\<And>d s. g (sleep d s) = g s) \<Longrightarrow>
   g (snd (retrying n f s)) = g s"
proof (induction n f s rule: retrying.induct)
  case (1 attempt_number f s)
  obtain r s1 where fs: "f s = (r, s1)" by (cases "f s")
  have g1: "g s1 = g s" using "1.prems"(1)[of s] fs by simp
  show ?case
  proof (cases r)
    case (Inr w)
    then show ?thesis using fs g1 by simp
  next
    case (Inl e)
    show ?thesis
    proof (cases "retry_if_exception_type SuperTensorTimeout e \<and> \<not> stop_after_attempt 3 attempt_number")
      case True
      have "g (snd (retrying (Suc attempt_number) f
                   (sleep (wait_exponential (1 / 10) (1 / 10) (8 / 10) attempt_number) s1)))
            = g (sleep (wait_exponential (1 / 10) (1 / 10) (8 / 10) attempt_number) s1)"
        using "1.IH"[OF fs[symmetric] Inl] True "1.prems" by blast
      then show ?thesis using fs Inl True g1 "1.prems"(2) by simp
    next
      case False
      then show ?thesis using fs Inl g1 by (auto split: if_splits)
    qed
  qed
qed

lemma make_sync_keeps_timestamp_cache:
  "block_timestamp_cache (snd (make_sync ev coro s)) = block_timestamp_cache s"
  by (simp add: make_sync_def Let_def split: prod.splits sum.splits st_error.splits)

lemma archive_fallback_keeps:
  assumes "\<And>src s. g (snd (func src s)) = g s"
  shows "g (snd (archive_fallback func s)) = g s"
proof -
  obtain r s1 where l: "func Lite s = (r, s1)" by (cases "func Lite s")
  have "g s1 = g s" using assms[of Lite s] l by simp
  then show ?thesis
    using l assms[of Archive s1]
    by (auto simp: archive_fallback_def split: sum.splits st_error.splits)
qed

lemma get_block_timestamp_never_cached:
  "block_timestamp_cache (snd (Precaching_get_block_timestamp ch b s)) = block_timestamp_cache s"
  unfolding Precaching_get_block_timestamp_def RETRY_ON_TIMEOUT_def
proof (rule retrying_keeps)
  fix s :: supertensor
  have "block_timestamp_cache (snd (SuperTensor__get_block_timestamp ch b (set_starting_block b s)))
          = block_timestamp_cache (set_starting_block b s)"
    unfolding SuperTensor__get_block_timestamp_def
    by (rule archive_fallback_keeps) (rule make_sync_keeps_timestamp_cache)
  then show "block_timestamp_cache
          (snd (let s1 = set_starting_block b s
                in case block_timestamp_cache s1 b of
                     Some timestamp \<Rightarrow> (Inr timestamp, s1)
                   | None \<Rightarrow>
                       if throw_on_cache_miss s1 then (Inl PrecachingSuperTensorCacheMiss, s1)
                       else SuperTensor__get_block_timestamp ch b s1))
        = block_timestamp_cache s"
    by (simp add: Let_def set_starting_block_caches split: option.splits)
next
  fix d s show "block_timestamp_cache (sleep d s) = block_timestamp_cache s"
    by (simp add: sleep_def)
qed

text \<open>
  Claim C3 at a failing input. A fresh cache with \<^verbatim>\<open>throw_on_cache_miss\<close> false reads
  the timestamp of block 7: the read misses, fetches the value 84 from the chain and
  returns it, but the cache has no timestamp for block 7 afterwards, and the
  immediately following read of the same block goes to the chain again. (For
  neurons, block hash, subnet state and validators the lemmas above show that the
  value is stored and the following read is a hit.)
\<close>

theorem get_block_timestamp_miss_not_cached:
  "fst (Precaching_get_block_timestamp demo_chain 7 (new_precaching False False)) = Inr 84
   \<and> block_timestamp_cache
        (snd (Precaching_get_block_timestamp demo_chain 7 (new_precaching False False))) 7 = None
   \<and> events (snd (Precaching_get_block_timestamp demo_chain 7 (new_precaching False False)))
       = [ChainRead RpcGetTimestamp Lite 7 1]
   \<and> events (snd (Precaching_get_block_timestamp demo_chain 7
                (snd (Precaching_get_block_timestamp demo_chain 7 (new_precaching False False)))))
       = [ChainRead RpcGetTimestamp Lite 7 1, ChainRead RpcGetTimestamp Lite 7 1]"
  by (simp add: Precaching_get_block_timestamp_def RETRY_ON_TIMEOUT_def Let_def
      set_starting_block_def SuperTensor__get_block_timestamp_def archive_fallback_def
      make_sync_def demo_chain_def new_precaching_def DEFAULT_TIMEOUT_def)

subsection \<open>Chain oracle: timeout and retry\<close>

lemma retrying_last:
  "3 \<le> n \<Longrightarrow> retrying n f x = f x"
  by (subst retrying.simps)
     (simp add: stop_after_attempt_def del: retrying.simps split: prod.splits sum.splits)

lemma retrying_step:
  "n < 3 \<Longrightarrow>
   retrying n f x =
     (case f x of
        (Inl SuperTensorTimeout, s1) \<Rightarrow>
          retrying (Suc n) f (sleep (wait_exponential (1 / 10) (1 / 10) (8 / 10) n) s1)
      | r \<Rightarrow> r)"
  by (subst retrying.simps)
     (simp add: stop_after_attempt_def retry_if_exception_type_def del: retrying.simps
        split: prod.splits sum.splits st_error.splits)

lemma retry_unrolled:
  "RETRY_ON_TIMEOUT f s =
     (case f s of
        (Inl SuperTensorTimeout, s1) \<Rightarrow>
          (case f (sleep (1 / 10) s1) of
             (Inl SuperTensorTimeout, s2) \<Rightarrow> f (sleep (2 / 10) s2)
           | r \<Rightarrow> r)
      | r \<Rightarrow> r)"
proof -
  have w1: "wait_exponential (1 / 10) (1 / 10) (8 / 10) 1 = 1 / 10"
    and w2: "wait_exponential (1 / 10) (1 / 10) (8 / 10) (Suc 1) = 2 / 10"
    by (simp_all add: wait_exponential_def)
  have r3: "\<And>x. retrying (Suc (Suc 1)) f x = f x" by (rule retrying_last) simp
  have r2: "retrying (Suc 1) f x =
     (case f x of (Inl SuperTensorTimeout, s2) \<Rightarrow> f (sleep (2 / 10) s2) | r \<Rightarrow> r)" for x
  proof -
    have "Suc 1 < (3::nat)" by simp
    from retrying_step[OF this, of f x] show ?thesis unfolding r3 w2 .
  qed
  have "(1::nat) < 3" by simp
  from retrying_step[OF this, of f s] show ?thesis
    unfolding RETRY_ON_TIMEOUT_def r2 w1 .
qed


lemma retry_result:
  "RETRY_ON_TIMEOUT f s = f s
   \<or> RETRY_ON_TIMEOUT f s = f (sleep (1 / 10) (snd (f s)))
   \<or> RETRY_ON_TIMEOUT f s = f (sleep (2 / 10) (snd (f (sleep (1 / 10) (snd (f s))))))"
  unfolding retry_unrolled
  by (cases "f s"; cases "f (sleep (1 / 10) (snd (f s)))")
     (auto split: sum.splits st_error.splits)

lemma reads_sleep: "\<not> P (Sleep w) \<Longrightarrow> reads P (sleep w s) = reads P s"
  by (simp add: reads_def sleep_def)

lemma retry_reads:
  assumes body: "\<And>s. reads P (snd (f s)) \<le> reads P s + n"
      and quiet: "\<And>w. \<not> P (Sleep w)"
  shows "reads P (snd (RETRY_ON_TIMEOUT f s)) \<le> reads P s + 3 * n"
proof -
  let ?s1 = "sleep (1 / 10) (snd (f s))"
  let ?s2 = "sleep (2 / 10) (snd (f ?s1))"
  have a: "reads P (snd (f s)) \<le> reads P s + n" by (rule body)
  have b: "reads P (snd (f ?s1)) \<le> reads P s + 2 * n"
    using body[of ?s1] a by (simp add: reads_sleep quiet)
  have c: "reads P (snd (f ?s2)) \<le> reads P s + 3 * n"
    using body[of ?s2] b by (simp add: reads_sleep quiet)
  from retry_result[of f s] show ?thesis
    using a b c by (elim disjE) simp_all
qed

lemma outside_policy_sleep:
  "1 / 10 \<le> w \<Longrightarrow> w \<le> 8 / 10 \<Longrightarrow> outside_policy (sleep w s) = outside_policy s"
  by (simp add: outside_policy_def sleep_def)

lemma retry_outside_policy:
  assumes body: "\<And>s. outside_policy (snd (f s)) = outside_policy s"
  shows "outside_policy (snd (RETRY_ON_TIMEOUT f s)) = outside_policy s"
proof -
  let ?s1 = "sleep (1 / 10) (snd (f s))"
  let ?s2 = "sleep (2 / 10) (snd (f ?s1))"
  have a: "outside_policy (snd (f s)) = outside_policy s" by (rule body)
  have b: "outside_policy (snd (f ?s1)) = outside_policy s"
    using body[of ?s1] a by (simp add: outside_policy_sleep)
  have c: "outside_policy (snd (f ?s2)) = outside_policy s"
    using body[of ?s2] b by (simp add: outside_policy_sleep)
  from retry_result[of f s] show ?thesis
    using a b c by (elim disjE) simp_all
qed

lemma make_sync_events:
  "events (snd (make_sync ev coro s))
     = events s @ [ev (min (fst (coro (calls s))) DEFAULT_TIMEOUT)]"
  by (simp add: make_sync_def Let_def split: prod.splits sum.splits st_error.splits)

lemma make_sync_timeout:
  "DEFAULT_TIMEOUT \<le> fst (coro (calls s)) \<Longrightarrow> fst (make_sync ev coro s) = Inl SuperTensorTimeout"
  by (auto simp: make_sync_def Let_def split: prod.splits)

lemma archive_fallback_next:
  "archive_fallback func s = func Lite s
   \<or> archive_fallback func s = (Inl ArchiveSubtensorNotConfigured, snd (func Lite s))
   \<or> archive_fallback func s = func Archive (snd (func Lite s))"
  by (cases "func Lite s") (auto simp: archive_fallback_def split: sum.splits st_error.splits)

lemma chain_read_reads:
  "reads (is_read_of k src)
     (snd (archive_fallback (\<lambda>src'. make_sync (ChainRead k0 src' b) (coro src')) s))
     \<le> reads (is_read_of k src) s + (if k = k0 then 1 else 0)"
proof -
  let ?f = "\<lambda>src'. make_sync (ChainRead k0 src' b) (coro src')"
  have one: "reads (is_read_of k src) (snd (?f src' t))
               = reads (is_read_of k src) t + (if k = k0 \<and> src = src' then 1 else 0)" for src' t
    by (simp add: reads_def make_sync_events)
  from archive_fallback_next[of ?f s] show ?thesis
  proof (elim disjE)
    assume "archive_fallback ?f s = ?f Lite s"
    then show ?thesis using one[of Lite s] by simp
  next
    assume "archive_fallback ?f s = (Inl ArchiveSubtensorNotConfigured, snd (?f Lite s))"
    then show ?thesis using one[of Lite s] by simp
  next
    assume "archive_fallback ?f s = ?f Archive (snd (?f Lite s))"
    then show ?thesis using one[of Lite s] one[of Archive "snd (?f Lite s)"]
      by (cases src) simp_all
  qed
qed

lemma chain_read_outside_policy:
  "outside_policy (snd (archive_fallback (\<lambda>src'. make_sync (ChainRead k0 src' b) (coro src')) s))
     = outside_policy s"
proof -
  let ?f = "\<lambda>src'. make_sync (ChainRead k0 src' b) (coro src')"
  have one: "outside_policy (snd (?f src' t)) = outside_policy t" for src' t
    by (simp add: outside_policy_def make_sync_events)
  from archive_fallback_next[of ?f s] show ?thesis
    by (elim disjE) (simp_all add: one)
qed

lemma SuperTensor__list_neurons_reads:
  "reads (is_read_of k src) (snd (SuperTensor__list_neurons ch b s))
     \<le> reads (is_read_of k src) s + (if k = RpcListNeurons then 1 else 0)"
  using chain_read_reads[of k src RpcListNeurons b "\<lambda>src'. chain_list_neurons ch src' b" s]
  by (auto simp: SuperTensor__list_neurons_def SuperTensor__real_list_neurons_def reads_def
      split: option.splits list.splits prod.splits sum.splits)

lemma SuperTensor__list_neurons_outside_policy:
  "outside_policy (snd (SuperTensor__list_neurons ch b s)) = outside_policy s"
  using chain_read_outside_policy[of RpcListNeurons b "\<lambda>src'. chain_list_neurons ch src' b" s]
  by (auto simp: SuperTensor__list_neurons_def SuperTensor__real_list_neurons_def outside_policy_def
      split: option.splits list.splits prod.splits sum.splits)

lemma not_read_sleep: "\<not> is_read_of k src (Sleep w)" "\<not> is_shielded_read (Sleep w)"
  by simp_all

lemma SuperTensor_list_neurons_reads:
  "reads (is_read_of k src) (snd (SuperTensor_list_neurons ch b s))
     \<le> reads (is_read_of k src) s + (if k = RpcListNeurons then 3 else 0)"
  unfolding SuperTensor_list_neurons_def list_neurons_def
  using retry_reads[of "is_read_of k src" "SuperTensor__list_neurons ch b"
      "if k = RpcListNeurons then 1 else 0" s, OF SuperTensor__list_neurons_reads not_read_sleep(1)]
  by (simp split: if_splits)

lemma retried_chain_read_reads:
  "reads (is_read_of k src)
     (snd (RETRY_ON_TIMEOUT
             (archive_fallback (\<lambda>src'. make_sync (ChainRead k0 src' b) (coro src'))) s))
     \<le> reads (is_read_of k src) s + (if k = k0 then 3 else 0)"
proof -
  let ?f = "archive_fallback (\<lambda>src'. make_sync (ChainRead k0 src' b) (coro src'))"
  have body: "reads (is_read_of k src) (snd (?f t))
                \<le> reads (is_read_of k src) t + (if k = k0 then 1 else 0)" for t
    by (rule chain_read_reads)
  have "reads (is_read_of k src) (snd (RETRY_ON_TIMEOUT ?f s))
          \<le> reads (is_read_of k src) s + 3 * (if k = k0 then 1 else 0)"
    by (rule retry_reads) (rule body, rule not_read_sleep)
  then show ?thesis by (simp split: if_splits)
qed

lemma retried_chain_read_outside_policy:
  "outside_policy
     (snd (RETRY_ON_TIMEOUT
             (archive_fallback (\<lambda>src'. make_sync (ChainRead k0 src' b) (coro src'))) s))
     = outside_policy s"
  by (rule retry_outside_policy) (rule chain_read_outside_policy)

lemma SuperTensor_get_block_timestamp_reads:
  "reads (is_read_of k src) (snd (SuperTensor_get_block_timestamp ch b s))
     \<le> reads (is_read_of k src) s + (if k = RpcGetTimestamp then 3 else 0)"
  unfolding SuperTensor_get_block_timestamp_def SuperTensor__get_block_timestamp_def
  by (rule retried_chain_read_reads)

lemma SuperTensor_get_block_hash_reads:
  "reads (is_read_of k src) (snd (SuperTensor_get_block_hash ch b s))
     \<le> reads (is_read_of k src) s + (if k = RpcBlockHash then 3 else 0)"
  unfolding SuperTensor_get_block_hash_def SuperTensor__get_block_hash_def
  by (rule retried_chain_read_reads)

lemma SuperTensor_get_subnet_state_reads:
  "reads (is_read_of k src) (snd (SuperTensor_get_subnet_state ch b s))
     \<le> reads (is_read_of k src) s + (if k = RpcGetState then 3 else 0)"
  unfolding SuperTensor_get_subnet_state_def SuperTensor__get_subnet_state_def
  by (rule retried_chain_read_reads)

lemma SuperTensor_reads_outside_policy:
  "outside_policy (snd (SuperTensor_list_neurons ch b s)) = outside_policy s"
  "outside_policy (snd (SuperTensor_get_block_timestamp ch b s)) = outside_policy s"
  "outside_policy (snd (SuperTensor_get_block_hash ch b s)) = outside_policy s"
  "outside_policy (snd (SuperTensor_get_subnet_state ch b s)) = outside_policy s"
  unfolding SuperTensor_list_neurons_def list_neurons_def
    SuperTensor_get_block_timestamp_def SuperTensor__get_block_timestamp_def
    SuperTensor_get_block_hash_def SuperTensor__get_block_hash_def
    SuperTensor_get_subnet_state_def SuperTensor__get_subnet_state_def
  by (rule retry_outside_policy, rule SuperTensor__list_neurons_outside_policy)
     (rule retried_chain_read_outside_policy)+

lemma get_shielded_neurons_outside_policy:
  "outside_policy (snd (get_shielded_neurons ch s)) = outside_policy s"
  unfolding get_shielded_neurons_def
  by (rule retry_outside_policy) (simp add: outside_policy_def make_sync_events)

lemma get_shielded_neurons_reads:
  "reads is_shielded_read (snd (get_shielded_neurons ch s)) \<le> reads is_shielded_read s + 3"
proof -
  have "reads is_shielded_read (snd (make_sync ShieldedRead (chain_shielded_neurons ch) t))
          \<le> reads is_shielded_read t + 1" for t
    by (simp add: reads_def make_sync_events)
  from retry_reads[of is_shielded_read _ 1 s, OF this not_read_sleep(2)]
  show ?thesis by (simp add: get_shielded_neurons_def)
qed

lemma build_metagraph_data_next:
  "snd (build_metagraph_data rh rn rs b s) = snd (rh b s)
   \<or> snd (build_metagraph_data rh rn rs b s) = snd (rn b (snd (rh b s)))
   \<or> snd (build_metagraph_data rh rn rs b s) = snd (rs b (snd (rn b (snd (rh b s)))))"
  by (cases "rh b s"; cases "rn b (snd (rh b s))"; cases "rs b (snd (rn b (snd (rh b s))))")
     (auto simp: build_metagraph_data_def split: sum.splits)

lemma get_current_block_events: "events (snd (get_current_block ch s)) = events s"
  by (simp add: get_current_block_def Let_def split: sum.splits st_error.splits)

lemma SuperTensor_build_reads:
  "reads (is_read_of k src)
     (snd (build_metagraph_data (SuperTensor_get_block_hash ch) (SuperTensor_list_neurons ch)
             (SuperTensor_get_subnet_state ch) b s))
     \<le> reads (is_read_of k src) s + 3"
proof -
  let ?s1 = "snd (SuperTensor_get_block_hash ch b s)"
  let ?s2 = "snd (SuperTensor_list_neurons ch b ?s1)"
  let ?s3 = "snd (SuperTensor_get_subnet_state ch b ?s2)"
  have a: "reads (is_read_of k src) ?s1
             \<le> reads (is_read_of k src) s + (if k = RpcBlockHash then 3 else 0)"
    by (rule SuperTensor_get_block_hash_reads)
  have b: "reads (is_read_of k src) ?s2
             \<le> reads (is_read_of k src) ?s1 + (if k = RpcListNeurons then 3 else 0)"
    by (rule SuperTensor_list_neurons_reads)
  have c: "reads (is_read_of k src) ?s3
             \<le> reads (is_read_of k src) ?s2 + (if k = RpcGetState then 3 else 0)"
    by (rule SuperTensor_get_subnet_state_reads)
  from build_metagraph_data_next[of "SuperTensor_get_block_hash ch" "SuperTensor_list_neurons ch"
      "SuperTensor_get_subnet_state ch" b s]
  show ?thesis using a b c by (elim disjE) (simp_all split: if_splits)
qed

lemma SuperTensor_build_outside_policy:
  "outside_policy
     (snd (build_metagraph_data (SuperTensor_get_block_hash ch) (SuperTensor_list_neurons ch)
             (SuperTensor_get_subnet_state ch) b s))
     = outside_policy s"
  using build_metagraph_data_next[of "SuperTensor_get_block_hash ch" "SuperTensor_list_neurons ch"
      "SuperTensor_get_subnet_state ch" b s]
  by (elim disjE) (simp_all add: SuperTensor_reads_outside_policy)

lemma SuperTensor_get_metagraph_reads:
  "reads (is_read_of k src) (snd (SuperTensor_get_metagraph ch block_number s))
     \<le> reads (is_read_of k src) s + 9"
proof -
  let ?body = "\<lambda>s. case block_number of
               Some b \<Rightarrow>
                 build_metagraph_data (SuperTensor_get_block_hash ch) (SuperTensor_list_neurons ch)
                   (SuperTensor_get_subnet_state ch) b s
             | None \<Rightarrow>
                 (case get_current_block ch s of
                    (Inl e, s1) \<Rightarrow> (Inl e, s1)
                  | (Inr b, s1) \<Rightarrow>
                      build_metagraph_data (SuperTensor_get_block_hash ch)
                        (SuperTensor_list_neurons ch) (SuperTensor_get_subnet_state ch) b s1)"
  have body: "reads (is_read_of k src) (snd (?body t)) \<le> reads (is_read_of k src) t + 3" for t
  proof (cases block_number)
    case (Some b)
    then show ?thesis using SuperTensor_build_reads[of k src ch b t] by simp
  next
    case None
    obtain r t1 where g: "get_current_block ch t = (r, t1)" by (cases "get_current_block ch t")
    have e: "reads (is_read_of k src) t1 = reads (is_read_of k src) t"
      using get_current_block_events[of ch t] g by (simp add: reads_def)
    show ?thesis
    proof (cases r)
      case (Inl err)
      then show ?thesis using None g e by simp
    next
      case (Inr b)
      then show ?thesis using None g e SuperTensor_build_reads[of k src ch b t1] by simp
    qed
  qed
  have "reads (is_read_of k src) (snd (RETRY_ON_TIMEOUT ?body s))
          \<le> reads (is_read_of k src) s + 3 * 3"
    by (rule retry_reads) (rule body, rule not_read_sleep)
  then show ?thesis by (simp add: SuperTensor_get_metagraph_def get_metagraph_def)
qed

lemma SuperTensor_get_metagraph_outside_policy:
  "outside_policy (snd (SuperTensor_get_metagraph ch block_number s)) = outside_policy s"
  unfolding SuperTensor_get_metagraph_def get_metagraph_def
proof (rule retry_outside_policy)
  fix t
  show "outside_policy
          (snd (case block_number of
               Some b \<Rightarrow>
                 build_metagraph_data (SuperTensor_get_block_hash ch) (SuperTensor_list_neurons ch)
                   (SuperTensor_get_subnet_state ch) b t
             | None \<Rightarrow>
                 (case get_current_block ch t of
                    (Inl e, s1) \<Rightarrow> (Inl e, s1)
                  | (Inr b, s1) \<Rightarrow>
                      build_metagraph_data (SuperTensor_get_block_hash ch)
                        (SuperTensor_list_neurons ch) (SuperTensor_get_subnet_state ch) b s1)))
        = outside_policy t"
  proof (cases block_number)
    case (Some b)
    then show ?thesis by (simp add: SuperTensor_build_outside_policy)
  next
    case None
    obtain r t1 where g: "get_current_block ch t = (r, t1)" by (cases "get_current_block ch t")
    have e: "outside_policy t1 = outside_policy t"
      using get_current_block_events[of ch t] g by (simp add: outside_policy_def)
    show ?thesis using None g e by (cases r) (simp_all add: SuperTensor_build_outside_policy)
  qed
qed

lemma wait_exponential_range:
  "1 / 10 \<le> wait_exponential (1 / 10) (1 / 10) (8 / 10) n
   \<and> wait_exponential (1 / 10) (1 / 10) (8 / 10) n \<le> 8 / 10"
  by (simp add: wait_exponential_def)

text \<open>
  The policy as far as it holds. Every chain coroutine runs under the 30-second
  timeout of \<^verbatim>\<open>make_sync\<close>: it occupies the caller for at most 30 seconds, and one that
  needs 30 seconds or more ends in \<^verbatim>\<open>SuperTensorTimeout\<close>. The retry policy runs the
  decorated body at most three times: again only after \<^verbatim>\<open>SuperTensorTimeout\<close>, after
  a sleep of 0.1 s and then of 0.2 s (every wait of the policy lies between 0.1 s and
  0.8 s); the result of the third run is returned as it is, so a third timeout is
  re-raised, and any other error is raised at once. In class \<^verbatim>\<open>SuperTensor\<close> one call
  of \<^verbatim>\<open>list_neurons\<close>, \<^verbatim>\<open>get_block_timestamp\<close>, \<^verbatim>\<open>get_block_hash\<close>,
  \<^verbatim>\<open>get_subnet_state\<close> or \<^verbatim>\<open>get_shielded_neurons\<close> makes at most 3 reads of each kind
  at each node; the bound for \<^verbatim>\<open>SuperTensor.get_metagraph\<close> is 9, since the decorated
  reads it calls run inside its own decorated body. None of these methods adds an
  event outside the policy.
\<close>

lemma SuperTensor_reads_timeout_and_retry:
  "DEFAULT_TIMEOUT = 30
   \<and> events (snd (make_sync ev coro s))
         = events s @ [ev (min (fst (coro (calls s))) DEFAULT_TIMEOUT)]
   \<and> (DEFAULT_TIMEOUT \<le> fst (coro (calls s)) \<longrightarrow>
         fst (make_sync ev coro s) = Inl SuperTensorTimeout)
   \<and> RETRY_ON_TIMEOUT f s =
        (case f s of
           (Inl SuperTensorTimeout, s1) \<Rightarrow>
             (case f (sleep (1 / 10) s1) of
                (Inl SuperTensorTimeout, s2) \<Rightarrow> f (sleep (2 / 10) s2)
              | r \<Rightarrow> r)
         | r \<Rightarrow> r)
   \<and> 1 / 10 \<le> wait_exponential (1 / 10) (1 / 10) (8 / 10) n
   \<and> wait_exponential (1 / 10) (1 / 10) (8 / 10) n \<le> 8 / 10
   \<and> reads (is_read_of k src) (snd (SuperTensor_list_neurons ch b s))
         \<le> reads (is_read_of k src) s + 3
   \<and> reads (is_read_of k src) (snd (SuperTensor_get_block_timestamp ch b s))
         \<le> reads (is_read_of k src) s + 3
   \<and> reads (is_read_of k src) (snd (SuperTensor_get_block_hash ch b s))
         \<le> reads (is_read_of k src) s + 3
   \<and> reads (is_read_of k src) (snd (SuperTensor_get_subnet_state ch b s))
         \<le> reads (is_read_of k src) s + 3
   \<and> reads is_shielded_read (snd (get_shielded_neurons ch s)) \<le> reads is_shielded_read s + 3
   \<and> reads (is_read_of k src) (snd (SuperTensor_get_metagraph ch block_number s))
         \<le> reads (is_read_of k src) s + 9
   \<and> outside_policy (snd (SuperTensor_list_neurons ch b s)) = outside_policy s
   \<and> outside_policy (snd (SuperTensor_get_block_timestamp ch b s)) = outside_policy s
   \<and> outside_policy (snd (SuperTensor_get_block_hash ch b s)) = outside_policy s
   \<and> outside_policy (snd (SuperTensor_get_subnet_state ch b s)) = outside_policy s
   \<and> outside_policy (snd (get_shielded_neurons ch s)) = outside_policy s
   \<and> outside_policy (snd (SuperTensor_get_metagraph ch block_number s)) = outside_policy s"
proof -
  have a: "reads (is_read_of k src) (snd (SuperTensor_list_neurons ch b s))
         \<le> reads (is_read_of k src) s + 3"
    using SuperTensor_list_neurons_reads[of k src ch b s] by (simp split: if_splits)
  have b: "reads (is_read_of k src) (snd (SuperTensor_get_block_timestamp ch b s))
         \<le> reads (is_read_of k src) s + 3"
    using SuperTensor_get_block_timestamp_reads[of k src ch b s] by (simp split: if_splits)
  have c: "reads (is_read_of k src) (snd (SuperTensor_get_block_hash ch b s))
         \<le> reads (is_read_of k src) s + 3"
    using SuperTensor_get_block_hash_reads[of k src ch b s] by (simp split: if_splits)
  have d: "reads (is_read_of k src) (snd (SuperTensor_get_subnet_state ch b s))
         \<le> reads (is_read_of k src) s + 3"
    using SuperTensor_get_subnet_state_reads[of k src ch b s] by (simp split: if_splits)
  have t: "DEFAULT_TIMEOUT \<le> fst (coro (calls s)) \<longrightarrow>
         fst (make_sync ev coro s) = Inl SuperTensorTimeout"
    using make_sync_timeout[of coro s ev] by blast
  have d30: "DEFAULT_TIMEOUT = 30" by (simp add: DEFAULT_TIMEOUT_def)
  show ?thesis
    by (intro conjI d30 make_sync_events t retry_unrolled
        wait_exponential_range[THEN conjunct1] wait_exponential_range[THEN conjunct2]
        a b c d get_shielded_neurons_reads SuperTensor_get_metagraph_reads
        SuperTensor_reads_outside_policy get_shielded_neurons_outside_policy
        SuperTensor_get_metagraph_outside_policy)
qed

lemma SuperTensor_reads_timeout_and_retry_example:
  "DEFAULT_TIMEOUT \<le> fst (chain_shielded_neurons slow_chain (calls (new_precaching False False)))
   \<and> fst (make_sync ShieldedRead (chain_shielded_neurons slow_chain) (new_precaching False False))
        = Inl SuperTensorTimeout
   \<and> reads (is_read_of RpcBlockHash Lite)
        (snd (SuperTensor_get_block_hash slow_chain 7 (new_precaching False False))) \<le> 3"
proof -
  have h: "DEFAULT_TIMEOUT
             \<le> fst (chain_shielded_neurons slow_chain (calls (new_precaching False False)))"
    by (simp add: DEFAULT_TIMEOUT_def slow_chain_def)
  have z: "reads (is_read_of RpcBlockHash Lite) (new_precaching False False) = 0"
    by (simp add: reads_def new_precaching_def)
  note inst = SuperTensor_reads_timeout_and_retry[where ev = ShieldedRead
      and coro = "chain_shielded_neurons slow_chain" and s = "new_precaching False False"
      and k = RpcBlockHash and src = Lite and ch = slow_chain and b = 7]
  note timeout = inst[THEN conjunct2, THEN conjunct2, THEN conjunct1, THEN mp, OF h]
  note hash = inst[THEN conjunct2, THEN conjunct2, THEN conjunct2, THEN conjunct2, THEN conjunct2,
      THEN conjunct2, THEN conjunct2, THEN conjunct2, THEN conjunct1]
  show ?thesis
    using h z timeout hash by simp
qed

text \<open>
  Claim C5 at a failing input. Every answer of the chain takes 31 seconds, so every
  attempt is cut at 30 seconds and ends in \<^verbatim>\<open>SuperTensorTimeout\<close>; the cache is empty
  and \<^verbatim>\<open>throw_on_cache_miss\<close> is false. The claim allows a read 3 attempts in total,
  and \<^verbatim>\<open>SuperTensor.get_block_hash(7)\<close> makes 3. But \<^verbatim>\<open>SuperTensor.get_metagraph(7)\<close>
  runs \<^verbatim>\<open>self.get_block_hash\<close>, which is decorated with \<^verbatim>\<open>RETRY_ON_TIMEOUT\<close>, inside
  its own decorated body: the hash of block 7 is read from the lite node 9 times
  before the timeout is re-raised. \<^verbatim>\<open>PrecachingSuperTensor.get_block_hash(7)\<close> calls
  the decorated \<^verbatim>\<open>super().get_block_hash\<close> inside its own decorated body (its sibling
  overrides call the undecorated \<^verbatim>\<open>super()._get_block_timestamp\<close>,
  \<^verbatim>\<open>super()._get_subnet_state\<close>): 9 reads. \<^verbatim>\<open>PrecachingSuperTensor.get_metagraph(7)\<close>
  nests the three policies: 27 reads.
\<close>

theorem nested_retry_exceeds_three_attempts:
  "fst (SuperTensor_get_block_hash slow_chain 7 (new_precaching False False))
     = Inl SuperTensorTimeout
   \<and> reads (is_read_of RpcBlockHash Lite)
        (snd (SuperTensor_get_block_hash slow_chain 7 (new_precaching False False))) = 3
   \<and> fst (SuperTensor_get_metagraph slow_chain (Some 7) (new_precaching False False))
       = Inl SuperTensorTimeout
   \<and> reads (is_read_of RpcBlockHash Lite)
        (snd (SuperTensor_get_metagraph slow_chain (Some 7) (new_precaching False False))) = 9
   \<and> fst (Precaching_get_block_hash slow_chain 7 (new_precaching False False))
       = Inl SuperTensorTimeout
   \<and> reads (is_read_of RpcBlockHash Lite)
        (snd (Precaching_get_block_hash slow_chain 7 (new_precaching False False))) = 9
   \<and> fst (Precaching_get_metagraph slow_chain (Some 7) (new_precaching False False))
       = Inl SuperTensorTimeout
   \<and> reads (is_read_of RpcBlockHash Lite)
        (snd (Precaching_get_metagraph slow_chain (Some 7) (new_precaching False False))) = 27"
proof -
  note unfolded = retry_unrolled build_metagraph_data_def set_starting_block_def Let_def
    SuperTensor_get_block_hash_def SuperTensor__get_block_hash_def archive_fallback_def
    make_sync_def slow_chain_def new_precaching_def DEFAULT_TIMEOUT_def sleep_def reads_def
  have plain:
    "fst (SuperTensor_get_block_hash slow_chain 7 (new_precaching False False))
       = Inl SuperTensorTimeout
     \<and> reads (is_read_of RpcBlockHash Lite)
          (snd (SuperTensor_get_block_hash slow_chain 7 (new_precaching False False))) = 3"
    by (simp add: unfolded)
  have metagraph:
    "fst (SuperTensor_get_metagraph slow_chain (Some 7) (new_precaching False False))
       = Inl SuperTensorTimeout
     \<and> reads (is_read_of RpcBlockHash Lite)
          (snd (SuperTensor_get_metagraph slow_chain (Some 7) (new_precaching False False))) = 9"
    by (simp add: SuperTensor_get_metagraph_def get_metagraph_def unfolded)
  have cached:
    "fst (Precaching_get_block_hash slow_chain 7 (new_precaching False False))
       = Inl SuperTensorTimeout
     \<and> reads (is_read_of RpcBlockHash Lite)
          (snd (Precaching_get_block_hash slow_chain 7 (new_precaching False False))) = 9"
    by (simp add: Precaching_get_block_hash_def unfolded)
  have cached_metagraph:
    "fst (Precaching_get_metagraph slow_chain (Some 7) (new_precaching False False))
       = Inl SuperTensorTimeout
     \<and> reads (is_read_of RpcBlockHash Lite)
          (snd (Precaching_get_metagraph slow_chain (Some 7) (new_precaching False False))) = 27"
    by (simp add: Precaching_get_metagraph_def get_metagraph_def Precaching_get_block_hash_def
        unfolded)
  from plain metagraph cached cached_metagraph show ?thesis by blast
qed

subsection \<open>Receipt transfer: daemon mode\<close>

lemma passes_transfer:
  "passes evs \<Longrightarrow> k < length evs \<Longrightarrow> is_transfer (evs ! k) \<Longrightarrow>
   0 < k \<and> evs ! (k - 1) = Consulted (Inr True)"
proof (induction arbitrary: k rule: passes.induct)
  case no_pass
  then show ?case by simp
next
  case (pass evs pages semaphore t)
  show ?case
  proof (cases "k < length evs")
    case True
    then have "is_transfer (evs ! k)" using pass.prems by (simp add: nth_append)
    from pass.IH[OF True this] show ?thesis using True by (simp add: nth_append)
  next
    case False
    then have "k = length evs \<or> k = Suc (length evs)" using pass.prems by auto
    then show ?thesis using pass.prems by (auto simp: nth_append)
  qed
next
  case (pass_and_sleep evs pages semaphore t seconds)
  show ?case
  proof (cases "k < length evs")
    case True
    then have "is_transfer (evs ! k)" using pass_and_sleep.prems by (simp add: nth_append)
    from pass_and_sleep.IH[OF True this] show ?thesis using True by (simp add: nth_append)
  next
    case False
    then have "k = length evs \<or> k = Suc (length evs) \<or> k = Suc (Suc (length evs))"
      using pass_and_sleep.prems by auto
    then show ?thesis using pass_and_sleep.prems by (auto simp: nth_append)
  qed
qed

lemma passes_no_refusal:
  "passes evs \<Longrightarrow> k < length evs \<Longrightarrow> \<not> is_refusal (evs ! k)"
proof (induction arbitrary: k rule: passes.induct)
  case no_pass
  then show ?case by simp
next
  case (pass evs pages semaphore t)
  show ?case
  proof (cases "k < length evs")
    case True
    then show ?thesis using pass.IH[OF True] by (simp add: nth_append)
  next
    case False
    then have "k = length evs \<or> k = Suc (length evs)" using pass.prems by auto
    then show ?thesis by (auto simp: nth_append)
  qed
next
  case (pass_and_sleep evs pages semaphore t seconds)
  show ?case
  proof (cases "k < length evs")
    case True
    then show ?thesis using pass_and_sleep.IH[OF True] by (simp add: nth_append)
  next
    case False
    then have "k = length evs \<or> k = Suc (length evs) \<or> k = Suc (Suc (length evs))"
      using pass_and_sleep.prems by auto
    then show ?thesis by (auto simp: nth_append)
  qed
qed

lemma passes_starts_with_consult:
  "passes evs \<Longrightarrow> evs \<noteq> [] \<Longrightarrow> \<exists>a. evs ! 0 = Consulted a"
proof (induction rule: passes.induct)
  case no_pass
  then show ?case by simp
next
  case (pass evs pages semaphore t)
  then show ?case by (cases "evs = []") (simp_all add: nth_append)
next
  case (pass_and_sleep evs pages semaphore t seconds)
  then show ?case by (cases "evs = []") (simp_all add: nth_append)
qed

lemma task_log_transfer:
  assumes "task_log refused evs" "k < length evs" "is_transfer (evs ! k)"
  shows "0 < k \<and> evs ! (k - 1) = Consulted (Inr True)"
proof (cases refused)
  case False
  then show ?thesis using assms passes_transfer by (simp add: task_log_def)
next
  case True
  then obtain evs0 a where e: "evs = evs0 @ [Consulted a]" "passes evs0"
    using assms(1) by (auto simp: task_log_def)
  have k: "k < length evs0" using assms(2,3) e by (cases "k = length evs0") (auto simp: nth_append)
  then have "is_transfer (evs0 ! k)" using assms(3) e by (simp add: nth_append)
  from passes_transfer[OF e(2) k this] have "0 < k" "evs0 ! (k - 1) = Consulted (Inr True)"
    by simp_all
  moreover have "k - 1 < length evs0" using k by simp
  ultimately show ?thesis using e by (simp add: nth_append)
qed

lemma task_log_starts_with_consult:
  assumes "task_log refused evs" "evs \<noteq> []"
  shows "\<exists>a. evs ! 0 = Consulted a"
proof (cases refused)
  case False
  then show ?thesis using assms passes_starts_with_consult by (simp add: task_log_def)
next
  case True
  then obtain evs0 a where e: "evs = evs0 @ [Consulted a]" "passes evs0"
    using assms(1) by (auto simp: task_log_def)
  show ?thesis
    using e passes_starts_with_consult[OF e(2)] by (cases "evs0 = []") (auto simp: nth_append)
qed

lemma task_log_refusal:
  assumes "task_log refused evs" "k < length evs" "is_refusal (evs ! k)"
  shows "refused \<and> Suc k = length evs"
proof (cases refused)
  case False
  then show ?thesis using assms passes_no_refusal by (auto simp: task_log_def)
next
  case True
  then obtain evs0 a where e: "evs = evs0 @ [Consulted a]" "passes evs0"
    using assms(1) by (auto simp: task_log_def)
  have "\<not> k < length evs0"
    using passes_no_refusal[OF e(2), of k] assms(3) e by (auto simp: nth_append)
  then show ?thesis using True assms(2) e by simp
qed


lemma catch_up_task_log:
  "passes (tlog c) \<Longrightarrow>
   task_log (fst (catch_up enabled pages semaphore c) = Inl TransferIsDisabled)
     (tlog (snd (catch_up enabled pages semaphore c)))"
proof (induction pages arbitrary: c)
  case Nil
  then show ?case by (simp add: task_log_def)
next
  case (Cons page pages)
  show ?case
  proof (cases "enabled (consults c) = Inr True")
    case True
    let ?c1 = "transfer [page] semaphore 3 (snd (consult enabled c))"
    have "tlog ?c1 = tlog c @ [Consulted (Inr True), Transferred [page] semaphore 3]"
      using True by (simp add: consult_def transfer_def Let_def)
    then have "passes (tlog ?c1)" using Cons.prems passes.pass by simp
    from Cons.IH[OF this] show ?thesis
      using True by (simp add: consult_def Let_def throw_if_disabled_def)
  next
    case False
    then obtain e where e: "throw_if_disabled (enabled (consults c)) = Inl e"
      using throw_if_disabled_Inl by (metis (full_types) transfer_error.exhaust)
    have "task_log True (tlog c @ [Consulted (enabled (consults c))])"
      using False Cons.prems by (auto simp: task_log_def)
    then show ?thesis using e by (cases e) (simp add: consult_def Let_def)
  qed
qed

lemma keep_up_task_log:
  "passes (tlog c) \<Longrightarrow>
   task_log (fst (keep_up fuel env n_active_pages c) = Some TransferIsDisabled)
     (tlog (snd (keep_up fuel env n_active_pages c)))"
proof (induction fuel arbitrary: c)
  case 0
  then show ?case by (simp add: task_log_def)
next
  case (Suc fuel)
  show ?case
  proof (cases "hot_enabled env (consults c) = Inr True")
    case True
    let ?pages = "rev [page_now env (consults c) - n_active_pages + 1..page_now env (consults c)]"
    let ?c2 = "transfer ?pages 50 1 (snd (consult (hot_enabled env) c))"
    let ?c3 = "if elapsed env (consults c) < interval env (consults c)
               then ?c2\<lparr>tlog := tlog ?c2
                         @ [Slept (interval env (consults c) - elapsed env (consults c))]\<rparr>
               else ?c2"
    have "passes (tlog ?c3)"
      using True Suc.prems passes.pass[of "tlog c" ?pages 50 1]
        passes.pass_and_sleep[of "tlog c" ?pages 50 1
          "interval env (consults c) - elapsed env (consults c)"]
      by (simp add: consult_def transfer_def Let_def)
    have step: "keep_up (Suc fuel) env n_active_pages c = keep_up fuel env n_active_pages ?c3"
      using True by (simp add: consult_def Let_def throw_if_disabled_def)
    show ?thesis unfolding step by (rule Suc.IH[OF \<open>passes (tlog ?c3)\<close>])
  next
    case False
    then obtain e where e: "throw_if_disabled (hot_enabled env (consults c)) = Inl e"
      using throw_if_disabled_Inl by (metis (full_types) transfer_error.exhaust)
    have "task_log True (tlog c @ [Consulted (hot_enabled env (consults c))])"
      using False Suc.prems by (auto simp: task_log_def)
    then show ?thesis using e by (cases e) (simp add: consult_def Let_def)
  qed
qed

lemma passes_new: "passes (tlog new_coroutine)"
  by (simp add: new_coroutine_def passes.no_pass)

lemma catch_up_result:
  "fst (catch_up enabled pages semaphore c) = Inr ()
   \<or> fst (catch_up enabled pages semaphore c) = Inl TransferIsDisabled"
  by (cases "fst (catch_up enabled pages semaphore c)") (auto intro: transfer_error.exhaust)

lemma run_in_loop_logs:
  assumes "run_in_loop current_page_at n_active_pages fuel env cutoff = (e, lg)"
  shows "\<exists>rs rc rh. task_log rs (sweep lg) \<and> task_log rc (cold lg) \<and> task_log rh (hot lg)
           \<and> (e = Disabled) = (rs \<or> rc \<or> rh)"
proof -
  let ?cp = "round_current_page env"
  let ?sw = "catch_up (sweep_enabled env) (rev [?cp - n_active_pages + 1..?cp]) 50 new_coroutine"
  let ?co = "catch_up (cold_enabled env) (rev [current_page_at cutoff..?cp - n_active_pages]) 10
               new_coroutine"
  let ?ho = "keep_up fuel (hot_env env) n_active_pages new_coroutine"
  have sw: "task_log (fst ?sw = Inl TransferIsDisabled) (tlog (snd ?sw))"
    by (rule catch_up_task_log[OF passes_new])
  have co: "task_log (fst ?co = Inl TransferIsDisabled) (tlog (snd ?co))"
    by (rule catch_up_task_log[OF passes_new])
  have ho: "task_log (fst ?ho = Some TransferIsDisabled) (tlog (snd ?ho))"
    by (rule keep_up_task_log[OF passes_new])
  have emp: "task_log False []" by (simp add: task_log_def passes.no_pass)
  from catch_up_result[of "sweep_enabled env" "rev [?cp - n_active_pages + 1..?cp]" 50 new_coroutine]
  show ?thesis
  proof
    assume ok: "fst ?sw = Inr ()"
    then have "e = (if fst ?co = Inl TransferIsDisabled \<or> fst ?ho = Some TransferIsDisabled
                   then Disabled else Running)"
      and "lg = \<lparr>sweep = tlog (snd ?sw), cold = tlog (snd ?co), hot = tlog (snd ?ho)\<rparr>"
      using assms by (auto simp: run_in_loop_def Let_def split: prod.splits sum.splits)
    then show ?thesis using sw co ho ok
      by (intro exI[of _ False] exI[of _ "fst ?co = Inl TransferIsDisabled"]
          exI[of _ "fst ?ho = Some TransferIsDisabled"]) auto
  next
    assume no: "fst ?sw = Inl TransferIsDisabled"
    then have "e = Disabled" and "lg = \<lparr>sweep = tlog (snd ?sw), cold = [], hot = []\<rparr>"
      using assms by (auto simp: run_in_loop_def Let_def split: prod.splits sum.splits)
    then show ?thesis using sw emp no
      by (intro exI[of _ True] exI[of _ False]) auto
  qed
qed


lemma catch_up_logs_first_consult:
  "pages \<noteq> [] \<Longrightarrow> tlog (snd (catch_up enabled pages semaphore new_coroutine)) \<noteq> []"
proof (cases pages)
  case Nil
  assume "pages \<noteq> []"
  then show ?thesis using Nil by simp
next
  case (Cons page rest)
  have grows: "length (tlog c) \<le> length (tlog (snd (catch_up enabled ps semaphore c)))"
    for ps c
  proof (induction ps arbitrary: c)
    case Nil
    show ?case by simp
  next
    case (Cons p ps)
    show ?case
    proof (cases "throw_if_disabled (enabled (consults c))")
      case (Inl e)
      then show ?thesis by (simp add: consult_def Let_def)
    next
      case (Inr u)
      let ?c1 = "transfer [p] semaphore 3 (snd (consult enabled c))"
      have "length (tlog c) \<le> length (tlog ?c1)"
        by (simp add: consult_def transfer_def Let_def)
      also have "\<dots> \<le> length (tlog (snd (catch_up enabled ps semaphore ?c1)))"
        by (rule Cons.IH)
      finally show ?thesis using Inr by (simp add: consult_def Let_def)
    qed
  qed
  show ?thesis
  proof (cases "throw_if_disabled (enabled (consults new_coroutine))")
    case (Inl e)
    then show ?thesis using Cons by (simp add: consult_def Let_def)
  next
    case (Inr u)
    let ?c1 = "transfer [page] semaphore 3 (snd (consult enabled new_coroutine))"
    have "0 < length (tlog ?c1)" by (simp add: consult_def transfer_def Let_def)
    also have "\<dots> \<le> length (tlog (snd (catch_up enabled rest semaphore ?c1)))"
      by (rule grows)
    finally show ?thesis using Inr Cons by (simp add: consult_def Let_def)
  qed
qed

lemma run_in_loop_sweep_nonempty:
  assumes "0 < n_active_pages"
  shows "sweep (snd (run_in_loop current_page_at n_active_pages fuel env cutoff)) \<noteq> []"
proof -
  let ?cp = "round_current_page env"
  let ?pages = "rev [?cp - n_active_pages + 1..?cp]"
  let ?sw = "catch_up (sweep_enabled env) ?pages 50 new_coroutine"
  have "?pages \<noteq> []" using assms by simp
  then have ne: "tlog (snd ?sw) \<noteq> []" by (rule catch_up_logs_first_consult)
  have "sweep (snd (run_in_loop current_page_at n_active_pages fuel env cutoff)) = tlog (snd ?sw)"
    by (simp add: run_in_loop_def Let_def split: prod.splits sum.splits)
  then show ?thesis using ne by simp
qed

lemma daemon_loop_first:
  assumes "daemon_loop rounds current_page_at n_active_pages fuel env cutoff r \<noteq> []"
  shows "\<exists>lg. daemon_loop rounds current_page_at n_active_pages fuel env cutoff r ! 0 = Round lg
           \<and> (0 < n_active_pages \<longrightarrow> sweep lg \<noteq> [])"
proof (cases rounds)
  case 0
  then show ?thesis using assms by simp
next
  case (Suc m)
  obtain e lg where run: "run_in_loop current_page_at n_active_pages fuel (env r) cutoff = (e, lg)"
    by (cases "run_in_loop current_page_at n_active_pages fuel (env r) cutoff")
  have "0 < n_active_pages \<longrightarrow> sweep lg \<noteq> []"
    using run_in_loop_sweep_nonempty[of n_active_pages current_page_at fuel "env r" cutoff] run
    by simp
  then show ?thesis using Suc run by (cases e) simp_all
qed

lemma daemon_loop_round:
  assumes "i < length (daemon_loop rounds current_page_at n_active_pages fuel env cutoff r)"
      and "daemon_loop rounds current_page_at n_active_pages fuel env cutoff r ! i = Round lg"
  shows "\<exists>rs rc rh. task_log rs (sweep lg) \<and> task_log rc (cold lg) \<and> task_log rh (hot lg)
           \<and> (rs \<or> rc \<or> rh \<longrightarrow>
                Suc i < length (daemon_loop rounds current_page_at n_active_pages fuel env cutoff r)
              \<and> daemon_loop rounds current_page_at n_active_pages fuel env cutoff r ! Suc i
                  = DaemonSlept 60
              \<and> (Suc (Suc i)
                    < length (daemon_loop rounds current_page_at n_active_pages fuel env cutoff r)
                  \<longrightarrow> (\<exists>lg'. daemon_loop rounds current_page_at n_active_pages fuel env cutoff r
                               ! Suc (Suc i) = Round lg'
                            \<and> (0 < n_active_pages \<longrightarrow> sweep lg' \<noteq> []))))"
  using assms
proof (induction rounds arbitrary: r i)
  case 0
  then show ?case by simp
next
  case (Suc rounds)
  let ?rest = "daemon_loop rounds current_page_at n_active_pages fuel env cutoff (Suc r)"
  obtain e lg0 where run: "run_in_loop current_page_at n_active_pages fuel (env r) cutoff = (e, lg0)"
    by (cases "run_in_loop current_page_at n_active_pages fuel (env r) cutoff")
  from run_in_loop_logs[OF run] obtain rs rc rh where
    logs: "task_log rs (sweep lg0)" "task_log rc (cold lg0)" "task_log rh (hot lg0)"
    and ended: "(e = Disabled) = (rs \<or> rc \<or> rh)"
    by blast
  show ?case
  proof (cases e)
    case Running
    then have items: "daemon_loop (Suc rounds) current_page_at n_active_pages fuel env cutoff r
                      = [Round lg0]"
      using run by simp
    then have "lg = lg0" using Suc.prems by simp
    moreover have "\<not> (rs \<or> rc \<or> rh)" using ended Running by simp
    ultimately show ?thesis using logs by blast
  next
    case Disabled
    then have items: "daemon_loop (Suc rounds) current_page_at n_active_pages fuel env cutoff r
                      = Round lg0 # DaemonSlept 60 # ?rest"
      using run by simp
    show ?thesis
    proof (cases i)
      case 0
      then have lg: "lg = lg0" using Suc.prems items by simp
      have "Suc (Suc 0) < length (Round lg0 # DaemonSlept 60 # ?rest) \<longrightarrow>
            (\<exists>lg'. (Round lg0 # DaemonSlept 60 # ?rest) ! Suc (Suc 0) = Round lg'
                  \<and> (0 < n_active_pages \<longrightarrow> sweep lg' \<noteq> []))"
      proof
        assume "Suc (Suc 0) < length (Round lg0 # DaemonSlept 60 # ?rest)"
        then have "?rest \<noteq> []" by auto
        from daemon_loop_first[OF this] show
          "\<exists>lg'. (Round lg0 # DaemonSlept 60 # ?rest) ! Suc (Suc 0) = Round lg'
                \<and> (0 < n_active_pages \<longrightarrow> sweep lg' \<noteq> [])"
          by simp
      qed
      then show ?thesis unfolding items 0 lg using logs by (intro exI[of _ rs] exI[of _ rc] exI[of _ rh]) simp
    next
      case (Suc j)
      show ?thesis
      proof (cases j)
        case 0
        then show ?thesis using Suc.prems items Suc by simp
      next
        case (Suc m)
        have i: "i = Suc (Suc m)" using \<open>i = Suc j\<close> Suc by simp
        have "m < length ?rest" and "?rest ! m = Round lg"
          using Suc.prems items i by simp_all
        from Suc.IH[OF this] obtain rs' rc' rh' where
          "task_log rs' (sweep lg)" "task_log rc' (cold lg)" "task_log rh' (hot lg)"
          "rs' \<or> rc' \<or> rh' \<longrightarrow>
             Suc m < length ?rest \<and> ?rest ! Suc m = DaemonSlept 60
           \<and> (Suc (Suc m) < length ?rest
               \<longrightarrow> (\<exists>lg'. ?rest ! Suc (Suc m) = Round lg'
                         \<and> (0 < n_active_pages \<longrightarrow> sweep lg' \<noteq> [])))"
          by blast
        then show ?thesis unfolding items i
          by (intro exI[of _ rs'] exI[of _ rc'] exI[of _ rh']) simp
      qed
    qed
  qed
qed

lemma demo_pages:
  "rev [10 - 2 + 1..10] = [10, 9::int]"
  "rev [hour_pages (36000 - 5 * 3600)..10 - 2] = [8, 7, 6, 5]"
  by (simp_all add: hour_pages_def upto.simps)

lemma demo_first_run:
  "run_in_loop hour_pages 2 2 (demo_rounds 0) (36000 - 5 * 3600) = (Disabled, demo_first_round)"
  unfolding run_in_loop_def Let_def demo_rounds_def round_env.simps demo_pages
  by (simp add: demo_keep_up_def demo_first_round_def consult_def transfer_def
      throw_if_disabled_def new_coroutine_def Let_def eval_nat_numeral upto.simps)

lemma demo_second_run:
  "run_in_loop hour_pages 2 2 (demo_rounds (Suc 0)) (36000 - 5 * 3600)
   = (Disabled, \<lparr>sweep = [Consulted (Inl KeyError)], cold = [], hot = []\<rparr>)"
  unfolding run_in_loop_def Let_def demo_rounds_def round_env.simps demo_pages
  by (simp add: consult_def throw_if_disabled_def new_coroutine_def Let_def)

lemma demo_daemon_items:
  "handle_daemon 2 hour_pages 2 2 demo_rounds 36000
   = [Round demo_first_round, DaemonSlept 60,
      Round \<lparr>sweep = [Consulted (Inl KeyError)], cold = [], hot = []\<rparr>, DaemonSlept 60]"
proof -
  have "handle_daemon (Suc (Suc 0)) hour_pages 2 2 demo_rounds 36000
   = [Round demo_first_round, DaemonSlept 60,
      Round \<lparr>sweep = [Consulted (Inl KeyError)], cold = [], hot = []\<rparr>, DaemonSlept 60]"
    unfolding handle_daemon_def daemon_loop.simps demo_first_run demo_second_run by simp
  then show ?thesis by (simp add: eval_nat_numeral)
qed

text \<open>
  Claim C6. In every round of the daemon and in each of its three tasks (the catch-up
  over the active pages, the catch-up over the older pages, \<^verbatim>\<open>keep_up\<close>), every
  transfer comes right after a consult of \<^verbatim>\<open>DYNAMIC_RECEIPT_TRANSFER_ENABLED\<close> that
  answered true, and a task that does anything starts with a consult. A consult with
  any other answer is the last event of its task, so no page is transferred in that
  iteration; the daemon then sleeps 60 seconds, and what it does next, if anything, is
  a new round, which starts with a consult when there is an active page.
\<close>

theorem daemon_consults_kill_switch:
  assumes "items = handle_daemon rounds current_page_at n_active_pages fuel env now"
      and "i < length items"
      and "items ! i = Round lg"
      and "evs = sweep lg \<or> evs = cold lg \<or> evs = hot lg"
  shows "(\<forall>k<length evs. is_transfer (evs ! k) \<longrightarrow>
            0 < k \<and> evs ! (k - 1) = Consulted (Inr True))
       \<and> (evs \<noteq> [] \<longrightarrow> (\<exists>a. evs ! 0 = Consulted a))
       \<and> (\<forall>k<length evs. is_refusal (evs ! k) \<longrightarrow>
            Suc k = length evs
          \<and> Suc i < length items \<and> items ! Suc i = DaemonSlept 60
          \<and> (Suc (Suc i) < length items \<longrightarrow>
               (\<exists>lg' a. items ! Suc (Suc i) = Round lg'
                  \<and> (0 < n_active_pages \<longrightarrow> sweep lg' \<noteq> [] \<and> sweep lg' ! 0 = Consulted a))))"
proof -
  let ?items = "daemon_loop rounds current_page_at n_active_pages fuel env (now - 5 * 3600) 0"
  have items: "items = ?items" using assms(1) by (simp add: handle_daemon_def)
  from daemon_loop_round[of i rounds current_page_at n_active_pages fuel env "now - 5 * 3600" 0 lg]
  obtain rs rc rh where
    logs: "task_log rs (sweep lg)" "task_log rc (cold lg)" "task_log rh (hot lg)"
    and after: "rs \<or> rc \<or> rh \<Longrightarrow>
        Suc i < length items \<and> items ! Suc i = DaemonSlept 60
      \<and> (Suc (Suc i) < length items
          \<longrightarrow> (\<exists>lg'. items ! Suc (Suc i) = Round lg'
                    \<and> (0 < n_active_pages \<longrightarrow> sweep lg' \<noteq> [])))"
    using assms(2,3) unfolding items by blast
  from assms(4) logs obtain refused where log: "task_log refused evs"
    and flag: "refused \<Longrightarrow> rs \<or> rc \<or> rh"
    by blast
  have transfers: "\<forall>k<length evs. is_transfer (evs ! k) \<longrightarrow>
                     0 < k \<and> evs ! (k - 1) = Consulted (Inr True)"
    using task_log_transfer[OF log] by blast
  have starts: "evs \<noteq> [] \<longrightarrow> (\<exists>a. evs ! 0 = Consulted a)"
    using task_log_starts_with_consult[OF log] by blast
  have refusals: "\<forall>k<length evs. is_refusal (evs ! k) \<longrightarrow>
            Suc k = length evs
          \<and> Suc i < length items \<and> items ! Suc i = DaemonSlept 60
          \<and> (Suc (Suc i) < length items \<longrightarrow>
               (\<exists>lg' a. items ! Suc (Suc i) = Round lg'
                  \<and> (0 < n_active_pages \<longrightarrow> sweep lg' \<noteq> [] \<and> sweep lg' ! 0 = Consulted a)))"
  proof (intro allI impI)
    fix k
    assume k: "k < length evs" and refusal: "is_refusal (evs ! k)"
    from task_log_refusal[OF log k refusal] have refused: refused and last: "Suc k = length evs"
      by simp_all
    from after[OF flag[OF refused]] have
      slept: "Suc i < length items" "items ! Suc i = DaemonSlept 60"
      and again: "Suc (Suc i) < length items
          \<longrightarrow> (\<exists>lg'. items ! Suc (Suc i) = Round lg'
                    \<and> (0 < n_active_pages \<longrightarrow> sweep lg' \<noteq> []))"
      by simp_all
    have "Suc (Suc i) < length items \<longrightarrow>
               (\<exists>lg' a. items ! Suc (Suc i) = Round lg'
                  \<and> (0 < n_active_pages \<longrightarrow> sweep lg' \<noteq> [] \<and> sweep lg' ! 0 = Consulted a))"
    proof
      assume more: "Suc (Suc i) < length items"
      with again obtain lg' where lg': "items ! Suc (Suc i) = Round lg'"
        and ne: "0 < n_active_pages \<longrightarrow> sweep lg' \<noteq> []"
        by blast
      from daemon_loop_round[of "Suc (Suc i)" rounds current_page_at n_active_pages fuel env
          "now - 5 * 3600" 0 lg']
      obtain rs' where "task_log rs' (sweep lg')" using more lg' unfolding items by blast
      from task_log_starts_with_consult[OF this] ne
      have "0 < n_active_pages \<longrightarrow> sweep lg' \<noteq> [] \<and> (\<exists>a. sweep lg' ! 0 = Consulted a)"
        by blast
      then show "\<exists>lg' a. items ! Suc (Suc i) = Round lg'
                  \<and> (0 < n_active_pages \<longrightarrow> sweep lg' \<noteq> [] \<and> sweep lg' ! 0 = Consulted a)"
        using lg' by blast
    qed
    then show "Suc k = length evs
          \<and> Suc i < length items \<and> items ! Suc i = DaemonSlept 60
          \<and> (Suc (Suc i) < length items \<longrightarrow>
               (\<exists>lg' a. items ! Suc (Suc i) = Round lg'
                  \<and> (0 < n_active_pages \<longrightarrow> sweep lg' \<noteq> [] \<and> sweep lg' ! 0 = Consulted a)))"
      using last slept by simp
  qed
  show ?thesis using transfers starts refusals by simp
qed

theorem daemon_consults_kill_switch_witness:
  "handle_daemon 2 hour_pages 2 2 demo_rounds 36000 ! 0 = Round demo_first_round
   \<and> cold demo_first_round ! 1 = Transferred [8] 10 3
   \<and> cold demo_first_round ! 0 = Consulted (Inr True)
   \<and> cold demo_first_round ! 2 = Consulted (Inr False)
   \<and> length (cold demo_first_round) = 3
   \<and> handle_daemon 2 hour_pages 2 2 demo_rounds 36000 ! 1 = DaemonSlept 60
   \<and> (\<exists>lg' a. handle_daemon 2 hour_pages 2 2 demo_rounds 36000 ! 2 = Round lg'
         \<and> sweep lg' ! 0 = Consulted a)"
proof -
  let ?items = "handle_daemon 2 hour_pages 2 2 demo_rounds 36000"
  let ?evs = "cold demo_first_round"
  have evs: "?evs = [Consulted (Inr True), Transferred [8] 10 3, Consulted (Inr False)]"
    by (simp add: demo_first_round_def)
  have len: "length ?items = 4" and first: "?items ! 0 = Round demo_first_round"
    by (simp_all add: demo_daemon_items)
  have "0 < length ?items" using len by simp
  note inst = daemon_consults_kill_switch[where items = ?items and rounds = 2
      and current_page_at = hour_pages and n_active_pages = 2 and fuel = 2 and env = demo_rounds
      and now = 36000 and i = 0 and lg = demo_first_round and evs = ?evs,
      OF refl this first]
  have all: "(\<forall>k<length ?evs. is_transfer (?evs ! k) \<longrightarrow>
            0 < k \<and> ?evs ! (k - 1) = Consulted (Inr True))
       \<and> (?evs \<noteq> [] \<longrightarrow> (\<exists>a. ?evs ! 0 = Consulted a))
       \<and> (\<forall>k<length ?evs. is_refusal (?evs ! k) \<longrightarrow>
            Suc k = length ?evs
          \<and> Suc 0 < length ?items \<and> ?items ! Suc 0 = DaemonSlept 60
          \<and> (Suc (Suc 0) < length ?items \<longrightarrow>
               (\<exists>lg' a. ?items ! Suc (Suc 0) = Round lg'
                  \<and> (0 < (2::int) \<longrightarrow> sweep lg' \<noteq> [] \<and> sweep lg' ! 0 = Consulted a))))"
    by (rule inst) simp
  from all[THEN conjunct1, THEN spec[where x = 1]]
  have before: "?evs ! 0 = Consulted (Inr True)" by (simp add: evs)
  from all[THEN conjunct2, THEN conjunct2, THEN spec[where x = 2]]
  have "?items ! Suc 0 = DaemonSlept 60
      \<and> (\<exists>lg' a. ?items ! Suc (Suc 0) = Round lg' \<and> sweep lg' ! 0 = Consulted a)"
    using len by (auto simp: evs)
  then have after: "?items ! 1 = DaemonSlept 60"
      "\<exists>lg' a. ?items ! 2 = Round lg' \<and> sweep lg' ! 0 = Consulted a"
    by (simp_all add: eval_nat_numeral)
  show ?thesis using first before after by (simp add: evs)
qed

end
